theory Spec2Isabelle
  imports Complex_Main "HOL-Library.Log_Nat"
begin

section \<open>The course player's progress engine (src/app/page.tsx)\<close>

text \<open>
  The component \<^verbatim>\<open>YouTubeCoursePlayer\<close> keeps a chapter list, a video identifier, a
  current chapter and a progress store. This theory embeds the functions that read and
  write the store: the sampling step \<^verbatim>\<open>trackProgress\<close>, the manual toggle
  \<^verbatim>\<open>markChapterCompleted\<close>, the reader \<^verbatim>\<open>getVideoProgress\<close> and the effect that
  loads the store from \<^verbatim>\<open>localStorage\<close>. React state is passed explicitly: a function
  takes the values of the variables it closes over and the live state, and returns
  the state after the updates it queues, or the error they raise.
\<close>

subsection \<open>JavaScript numbers in the percentage computation\<close>

text \<open>
  \<^verbatim>\<open>Math.round((a.length / b.length) * 100)\<close> is evaluated in IEEE 754 binary64. Both
  operands of the division are array lengths, hence non-negative integers below
  \<open>2^32\<close>, so only non-negative doubles, \<^verbatim>\<open>Infinity\<close> and \<^verbatim>\<open>NaN\<close> occur. A finite
  double is represented by the real number it denotes. \<open>fl64\<close> rounds a non-negative
  real to the nearest number with a 53-bit significand, ties to the even significand,
  as the division and the multiplication do; the exponent is not bounded, which
  differs from binary64 only outside the normal range (below \<open>2^-1022\<close>, above
  \<open>2^1023\<close>), where quotients of array lengths and their hundredfold never lie.
\<close>

datatype number = Finite real | Infinity | NaN

definition binade :: "real \<Rightarrow> int" where
  \<comment> \<open>the exponent \<open>e\<close> with \<open>2^e \<le> q < 2^(e+1)\<close>, for \<open>q > 0\<close>\<close>
  "binade q = (if 1 \<le> q then bitlen \<lfloor>q\<rfloor> - 1 else - bitlen (\<lceil>1 / q\<rceil> - 1))"

definition pow2 :: "int \<Rightarrow> real" where
  "pow2 e = (if 0 \<le> e then 2 ^ nat e else 1 / 2 ^ nat (- e))"

definition round_ties_even :: "real \<Rightarrow> int" where
  "round_ties_even s =
     (let f = \<lfloor>s\<rfloor>; d = s - of_int f
      in if d < 1 / 2 then f else if 1 / 2 < d then f + 1 else if even f then f else f + 1)"

definition fl64 :: "real \<Rightarrow> real" where
  "fl64 q =
     (if q = 0 then 0
      else let e = binade q
           in of_int (round_ties_even (q * pow2 (52 - e))) * pow2 (e - 52))"

definition length_div :: "nat \<Rightarrow> nat \<Rightarrow> number" where
  \<comment> \<open>\<^verbatim>\<open>a.length / b.length\<close>: division by zero gives \<^verbatim>\<open>Infinity\<close>, or \<^verbatim>\<open>NaN\<close> for 0/0\<close>
  "length_div a b =
     (if b = 0 then (if a = 0 then NaN else Infinity)
      else Finite (fl64 (real a / real b)))"

fun times_const :: "number \<Rightarrow> real \<Rightarrow> number" where
  \<comment> \<open>\<^verbatim>\<open>x * c\<close> for a positive constant \<open>c\<close>\<close>
  "times_const (Finite v) c = Finite (fl64 (v * c))"
| "times_const Infinity c = Infinity"
| "times_const NaN c = NaN"

fun Math_round :: "number \<Rightarrow> number" where
  \<comment> \<open>nearest integer, a tie goes up; \<^verbatim>\<open>Infinity\<close> and \<^verbatim>\<open>NaN\<close> are returned as they are\<close>
  "Math_round (Finite v) = Finite (of_int \<lfloor>v + 1 / 2\<rfloor>)"
| "Math_round Infinity = Infinity"
| "Math_round NaN = NaN"

definition percentageOf :: "nat \<Rightarrow> nat \<Rightarrow> number" where
  \<comment> \<open>\<^verbatim>\<open>Math.round((newCompletedChapters.length / chapters.length) * 100)\<close>, lines 184 and 227\<close>
  "percentageOf n len = Math_round (times_const (length_div n len) 100)"

definition double :: "real \<Rightarrow> real" where
  \<comment> \<open>the double nearest to a real of either sign; the watch time is incremented in doubles\<close>
  "double q = (if 0 \<le> q then fl64 q else - fl64 (- q))"

subsection \<open>Data model\<close>

record Chapter =
  title :: string
  time :: string
  url :: string
  timestamp :: real

text \<open>
  One entry of \<^verbatim>\<open>ProgressData\<close>. Chapter indices and the clock value are JavaScript
  numbers that are only assigned and only ever hold integers here; they are modelled as
  \<open>int\<close>. The watch time is the one field the code computes with (\<^verbatim>\<open>+ 1\<close>), so it is
  a double, represented by the real it denotes. The field \<^verbatim>\<open>timestamp\<close> of the entry
  is named \<open>updatedAt\<close>, since the chapter has a field \<^verbatim>\<open>timestamp\<close> of its own.
\<close>

record VideoProgress =
  completedChapters :: "int list"
  lastWatchedChapter :: int
  progressPercentage :: number
  totalWatchTime :: real
  updatedAt :: int

text \<open>
  The store is an object keyed by video identifier; the map holds its own keys. A
  property read \<^verbatim>\<open>obj[key]\<close> that finds no own key goes on to \<^verbatim>\<open>Object.prototype\<close>,
  whose properties are functions or objects: truthy values without any field of an
  entry. A read has three outcomes: an entry, such an inherited value, or undefined.
\<close>

type_synonym ProgressData = "string \<rightharpoonup> VideoProgress"

datatype lookup = Entry VideoProgress | Inherited | Undefined

definition objectPrototypeKeys :: "string list" where
  "objectPrototypeKeys =
     [''constructor'', ''hasOwnProperty'', ''isPrototypeOf'', ''propertyIsEnumerable'',
      ''toLocaleString'', ''toString'', ''valueOf'', ''__proto__'',
      ''__defineGetter__'', ''__defineSetter__'', ''__lookupGetter__'', ''__lookupSetter__'']"

definition getProperty :: "ProgressData \<Rightarrow> string \<Rightarrow> lookup" where
  "getProperty obj key =
     (case obj key of
        Some r \<Rightarrow> Entry r
      | None \<Rightarrow> if key \<in> set objectPrototypeKeys then Inherited else Undefined)"

datatype error = TypeError

text \<open>The React state the functions below read and write.\<close>

record component =
  progress :: ProgressData
  currentChapter :: int

definition defaultProgress :: "int \<Rightarrow> VideoProgress" where
  \<comment> \<open>the literal after \<^verbatim>\<open>prev[videoId] ||\<close>, lines 171-177 and 213-219\<close>
  "defaultProgress now =
     \<lparr>completedChapters = [], lastWatchedChapter = - 1, progressPercentage = Finite 0,
      totalWatchTime = 0, updatedAt = now\<rparr>"

definition valueOrDefault :: "ProgressData \<Rightarrow> string \<Rightarrow> int \<Rightarrow> lookup" where
  \<comment> \<open>\<^verbatim>\<open>prev[videoId] || {...}\<close>: an entry and an inherited value are truthy\<close>
  "valueOrDefault prev videoId now =
     (case getProperty prev videoId of
        Undefined \<Rightarrow> Entry (defaultProgress now)
      | found \<Rightarrow> found)"

definition recordOrDefault :: "ProgressData \<Rightarrow> string \<Rightarrow> int \<Rightarrow> VideoProgress" where
  \<comment> \<open>the entry an update starts from when the key has an entry or no property at all\<close>
  "recordOrDefault prev videoId now =
     (case prev videoId of Some r \<Rightarrow> r | None \<Rightarrow> defaultProgress now)"

subsection \<open>Chapter resolution (trackProgress, lines 156-163)\<close>

text \<open>
  The loop runs \<open>i\<close> from \<open>chapters.length - 1\<close> down to 0 and stops at the first
  chapter whose timestamp is at most the current time; \<open>newCurrentChapter\<close> stays 0
  when there is none. \<open>scanChapters chapters t k\<close> is the loop with \<open>k\<close> candidates
  \<open>k-1, ..., 0\<close> left.
\<close>

fun scanChapters :: "Chapter list \<Rightarrow> real \<Rightarrow> nat \<Rightarrow> nat" where
  "scanChapters chapters currentTime 0 = 0"
| "scanChapters chapters currentTime (Suc i) =
     (if timestamp (chapters ! i) \<le> currentTime then i
      else scanChapters chapters currentTime i)"

definition findCurrentChapter :: "Chapter list \<Rightarrow> real \<Rightarrow> nat" where
  "findCurrentChapter chapters currentTime =
     scanChapters chapters currentTime (length chapters)"

subsection \<open>Forward advance (the updater passed to setProgress, lines 170-197)\<close>

definition uniqueValues :: "int list \<Rightarrow> int list" where
  \<comment> \<open>\<^verbatim>\<open>[...new Set(xs)]\<close>: a Set keeps the first occurrence of each value, in insertion order\<close>
  "uniqueValues xs = fold (\<lambda>x seen. if x \<in> set seen then seen else seen @ [x]) xs []"

text \<open>
  \<open>now\<close> is the value of \<^verbatim>\<open>Date.now()\<close>; the stamp of the default literal is
  overwritten by the one of the returned entry. When \<^verbatim>\<open>prev[videoId]\<close> is an inherited
  value, \<^verbatim>\<open>videoProgress.completedChapters\<close> is undefined and spreading it at line 180
  throws a \<^verbatim>\<open>TypeError\<close>.
\<close>

definition applyChapterAdvance ::
  "Chapter list \<Rightarrow> string \<Rightarrow> nat \<Rightarrow> int \<Rightarrow> ProgressData \<Rightarrow> error + ProgressData" where
  "applyChapterAdvance chapters videoId newCurrentChapter now prev =
     (case valueOrDefault prev videoId now of
        Entry videoProgress \<Rightarrow>
          (let newCompletedChapters =
                 uniqueValues (completedChapters videoProgress @ map int [0..<newCurrentChapter]);
               percentage = percentageOf (length newCompletedChapters) (length chapters)
           in Inr (prev(videoId \<mapsto> videoProgress
                \<lparr>completedChapters := newCompletedChapters,
                 lastWatchedChapter := int newCurrentChapter,
                 progressPercentage := percentage,
                 totalWatchTime := double (totalWatchTime videoProgress + 1),
                 updatedAt := now\<rparr>)))
      | _ \<Rightarrow> Inl TypeError)"

subsection \<open>The sampling step (trackProgress, lines 151-200)\<close>

text \<open>
  \<^verbatim>\<open>trackProgress\<close> runs as the callback of \<^verbatim>\<open>setInterval\<close> (line 141). The interval is
  started by \<^verbatim>\<open>onPlayerReady\<close> and \<^verbatim>\<open>onPlayerStateChange\<close>, which are handed to the
  player when it is created (lines 113-124) by the effect that depends on
  \<^verbatim>\<open>[videoId, playerReady]\<close> (lines 251-266). So the \<^verbatim>\<open>chapters\<close>, \<^verbatim>\<open>videoId\<close> and
  \<^verbatim>\<open>currentChapter\<close> the callback reads are those of the render in which the player
  was created, for as long as that player lives: \<open>chapters\<close>, \<open>videoId\<close> and
  \<open>capturedChapter\<close> below. The setters write the live state \<open>st\<close>, and the updater
  given to \<^verbatim>\<open>setProgress\<close> receives the live store. \<open>player\<close> is \<open>None\<close> when
  \<^verbatim>\<open>playerRef.current\<close> is null and otherwise holds the value of
  \<^verbatim>\<open>getCurrentTime()\<close>. The result is the state after the queued updates, or the error
  the updater raises.
\<close>

definition trackProgress ::
  "Chapter list \<Rightarrow> string \<Rightarrow> int \<Rightarrow> real option \<Rightarrow> int \<Rightarrow> component
     \<Rightarrow> error + component" where
  "trackProgress chapters videoId capturedChapter player now st =
     (case player of
        None \<Rightarrow> Inr st
      | Some currentTime \<Rightarrow>
          if length chapters = 0 then Inr st
          else
            let newCurrentChapter = findCurrentChapter chapters currentTime
            in if int newCurrentChapter \<noteq> capturedChapter then
                 (if int newCurrentChapter > capturedChapter then
                    (case applyChapterAdvance chapters videoId newCurrentChapter now (progress st) of
                       Inl e \<Rightarrow> Inl e
                     | Inr stored \<Rightarrow>
                         Inr (st\<lparr>currentChapter := int newCurrentChapter, progress := stored\<rparr>))
                  else Inr (st\<lparr>currentChapter := int newCurrentChapter\<rparr>))
               else Inr st)"

text \<open>
  A player created in state \<open>st\<close> captures the current chapter of \<open>st\<close>; its interval
  then samples the clock, here at the given times and clock values. Loading a video
  (\<^verbatim>\<open>fetchChapters\<close>, lines 66-108) sets the chapters, the identifier and
  \<^verbatim>\<open>playerReady\<close>, and leaves \<^verbatim>\<open>currentChapter\<close> as it is.
\<close>

fun runSamples ::
  "Chapter list \<Rightarrow> string \<Rightarrow> int \<Rightarrow> (real \<times> int) list \<Rightarrow> component \<Rightarrow> error + component" where
  "runSamples chapters videoId capturedChapter [] st = Inr st"
| "runSamples chapters videoId capturedChapter ((currentTime, now) # rest) st =
     (case trackProgress chapters videoId capturedChapter (Some currentTime) now st of
        Inl e \<Rightarrow> Inl e
      | Inr st' \<Rightarrow> runSamples chapters videoId capturedChapter rest st')"

definition playerSession ::
  "Chapter list \<Rightarrow> string \<Rightarrow> (real \<times> int) list \<Rightarrow> component \<Rightarrow> error + component" where
  "playerSession chapters videoId samples st =
     runSamples chapters videoId (currentChapter st) samples st"

subsection \<open>The completion toggle (markChapterCompleted, lines 209-240)\<close>

text \<open>
  When \<^verbatim>\<open>prev[videoId]\<close> is an inherited value, \<^verbatim>\<open>videoProgress.completedChapters\<close> is
  undefined and the call of \<^verbatim>\<open>includes\<close> on it at line 221 throws a \<^verbatim>\<open>TypeError\<close>.
\<close>

definition toggleCompletion ::
  "Chapter list \<Rightarrow> string \<Rightarrow> int \<Rightarrow> int \<Rightarrow> ProgressData \<Rightarrow> error + ProgressData" where
  "toggleCompletion chapters videoId chapterIndex now prev =
     (case valueOrDefault prev videoId now of
        Entry videoProgress \<Rightarrow>
          (let isCompleted = (chapterIndex \<in> set (completedChapters videoProgress));
               newCompletedChapters =
                 (if isCompleted
                  then filter (\<lambda>idx. idx \<noteq> chapterIndex) (completedChapters videoProgress)
                  else completedChapters videoProgress @ [chapterIndex]);
               percentage = percentageOf (length newCompletedChapters) (length chapters)
           in Inr (prev(videoId \<mapsto> videoProgress
                \<lparr>completedChapters := newCompletedChapters,
                 lastWatchedChapter := chapterIndex,
                 progressPercentage := percentage,
                 updatedAt := now\<rparr>)))
      | _ \<Rightarrow> Inl TypeError)"

definition markChapterCompleted ::
  "Chapter list \<Rightarrow> string \<Rightarrow> int \<Rightarrow> int \<Rightarrow> component \<Rightarrow> error + component" where
  "markChapterCompleted chapters videoId chapterIndex now st =
     (if videoId = [] then Inr st
      else
        (case toggleCompletion chapters videoId chapterIndex now (progress st) of
           Inl e \<Rightarrow> Inl e
         | Inr stored \<Rightarrow> Inr (st\<lparr>progress := stored\<rparr>)))"



subsection \<open>Reading (getVideoProgress and its uses, lines 242-248, 342, 386-396 and 448)\<close>

text \<open>
  \<^verbatim>\<open>getVideoProgress\<close> returns null or \<^verbatim>\<open>progress[videoId]\<close>. Null and undefined are not
  told apart here: both are falsy and both end an optional chain. On an inherited
  value the chain goes on, \<^verbatim>\<open>completedChapters\<close> is undefined, and reading
  \<^verbatim>\<open>includes\<close> or \<^verbatim>\<open>length\<close> of it throws while the component renders.
\<close>

definition getVideoProgress :: "string \<Rightarrow> ProgressData \<Rightarrow> lookup" where
  "getVideoProgress videoId prog =
     (if videoId = [] \<or> getProperty prog videoId = Undefined then Undefined
      else getProperty prog videoId)"

definition falsy :: "number \<Rightarrow> bool" where
  "falsy x = (x = Finite 0 \<or> x = NaN)"

definition shownPercentage :: "string \<Rightarrow> ProgressData \<Rightarrow> number" where
  \<comment> \<open>\<^verbatim>\<open>videoProgress?.progressPercentage || 0\<close>, line 248\<close>
  "shownPercentage videoId prog =
     (case getVideoProgress videoId prog of
        Entry r \<Rightarrow> if falsy (progressPercentage r) then Finite 0 else progressPercentage r
      | _ \<Rightarrow> Finite 0)"

definition shownCompleted :: "string \<Rightarrow> ProgressData \<Rightarrow> int \<Rightarrow> error + bool" where
  \<comment> \<open>\<^verbatim>\<open>videoProgress?.completedChapters.includes(index)\<close>, lines 342 and 448\<close>
  "shownCompleted videoId prog index =
     (case getVideoProgress videoId prog of
        Undefined \<Rightarrow> Inr False
      | Entry r \<Rightarrow> Inr (index \<in> set (completedChapters r))
      | Inherited \<Rightarrow> Inl TypeError)"

definition shownChaptersDone :: "string \<Rightarrow> ProgressData \<Rightarrow> error + nat option" where
  \<comment> \<open>\<^verbatim>\<open>videoProgress && ... videoProgress.completedChapters.length\<close>, lines 386-396;
      \<open>None\<close> when the summary is not rendered\<close>
  "shownChaptersDone videoId prog =
     (case getVideoProgress videoId prog of
        Undefined \<Rightarrow> Inr None
      | Entry r \<Rightarrow> Inr (Some (length (completedChapters r)))
      | Inherited \<Rightarrow> Inl TypeError)"

subsection \<open>Loading the store (the first effect, lines 37-42)\<close>

text \<open>
  \<^verbatim>\<open>JSON.parse\<close> is a built-in of the platform. It is modelled by a parser of the JSON
  grammar (ECMA-404): white space, the three literal names, numbers, strings, arrays
  and objects. A number is kept as its lexeme and a string as the text between its
  quotes, escapes checked but not decoded; the members of an object are kept in source
  order. The parser recurses on fuel, \<open>JSON_parse\<close> supplies two units per character.
  \<open>SyntaxError\<close> is the exception \<^verbatim>\<open>JSON.parse\<close> throws.
\<close>

datatype json =
    JNull | JBool bool | JNumber string | JString string
  | JArray "json list" | JObject "(string \<times> json) list"

datatype parse_error = SyntaxError | OutOfFuel

definition is_ws :: "char \<Rightarrow> bool" where
  "is_ws c = (c = CHR '' '' \<or> c = CHR 0x09 \<or> c = CHR 0x0A \<or> c = CHR 0x0D)"

definition skip_ws :: "string \<Rightarrow> string" where
  "skip_ws s = dropWhile is_ws s"

definition is_digit :: "char \<Rightarrow> bool" where
  "is_digit c = (c \<in> set ''0123456789'')"

definition is_hex :: "char \<Rightarrow> bool" where
  "is_hex c = (c \<in> set ''0123456789abcdefABCDEF'')"

fun string_body :: "string \<Rightarrow> (string \<times> string) option" where
  "string_body [] = None"
| "string_body (c # cs) =
     (if c = CHR 0x22 then Some ([], cs)
      else if c = CHR 0x5C then
        (case cs of
           [] \<Rightarrow> None
         | d # ds \<Rightarrow>
             if d \<in> set [CHR 0x22, CHR 0x5C, CHR ''/'', CHR ''b'', CHR ''f'', CHR ''n'', CHR ''r'', CHR ''t'']
             then map_option (\<lambda>(s, r). (c # d # s, r)) (string_body ds)
             else if d = CHR ''u'' \<and> 4 \<le> length ds \<and> list_all is_hex (take 4 ds)
             then map_option (\<lambda>(s, r). (c # d # take 4 ds @ s, r)) (string_body (drop 4 ds))
             else None)
      else if of_char c < (32 :: nat) then None
      else map_option (\<lambda>(s, r). (c # s, r)) (string_body cs))"

definition digits :: "string \<Rightarrow> (string \<times> string) option" where
  "digits s = (let ds = takeWhile is_digit s in if ds = [] then None else Some (ds, dropWhile is_digit s))"

definition number_lexeme :: "string \<Rightarrow> (string \<times> string) option" where
  "number_lexeme s =
     (let (sign, s1) = (case s of c # r \<Rightarrow> if c = CHR ''-'' then ([c], r) else ([], s) | [] \<Rightarrow> ([], s))
      in case (case s1 of
                 [] \<Rightarrow> None
               | c # r \<Rightarrow> if c = CHR ''0'' then Some ([c], r) else digits s1) of
           None \<Rightarrow> None
         | Some (ip, s2) \<Rightarrow>
             (case (case s2 of
                      [] \<Rightarrow> Some ([], s2)
                    | c # r \<Rightarrow>
                        if c = CHR ''.'' then map_option (\<lambda>(ds, r'). (c # ds, r')) (digits r)
                        else Some ([], s2)) of
                None \<Rightarrow> None
              | Some (fp, s3) \<Rightarrow>
                  (case (case s3 of
                           [] \<Rightarrow> Some ([], s3)
                         | c # r \<Rightarrow>
                             if c = CHR ''e'' \<or> c = CHR ''E'' then
                               (case r of
                                  [] \<Rightarrow> None
                                | g # r' \<Rightarrow>
                                    if g = CHR ''+'' \<or> g = CHR ''-''
                                    then map_option (\<lambda>(ds, r''). (c # g # ds, r'')) (digits r')
                                    else map_option (\<lambda>(ds, r''). (c # ds, r'')) (digits r))
                             else Some ([], s3)) of
                     None \<Rightarrow> None
                   | Some (ep, s4) \<Rightarrow> Some (sign @ ip @ fp @ ep, s4))))"

definition literal :: "string \<Rightarrow> string \<Rightarrow> string option" where
  "literal w s = (if take (length w) s = w then Some (drop (length w) s) else None)"

fun parse_value :: "nat \<Rightarrow> string \<Rightarrow> parse_error + (json \<times> string)"
and parse_elements :: "nat \<Rightarrow> json list \<Rightarrow> string \<Rightarrow> parse_error + (json \<times> string)"
and parse_members :: "nat \<Rightarrow> (string \<times> json) list \<Rightarrow> string \<Rightarrow> parse_error + (json \<times> string)"
where
  "parse_value 0 s = Inl OutOfFuel"
| "parse_value (Suc n) s =
     (case skip_ws s of
        [] \<Rightarrow> Inl SyntaxError
      | c # cs \<Rightarrow>
          if c = CHR ''{'' then
            (case skip_ws cs of
               [] \<Rightarrow> Inl SyntaxError
             | d # r \<Rightarrow> if d = CHR ''}'' then Inr (JObject [], r) else parse_members n [] cs)
          else if c = CHR ''['' then
            (case skip_ws cs of
               [] \<Rightarrow> Inl SyntaxError
             | d # r \<Rightarrow> if d = CHR '']'' then Inr (JArray [], r) else parse_elements n [] cs)
          else if c = CHR 0x22 then
            (case string_body cs of
               None \<Rightarrow> Inl SyntaxError
             | Some (str, r) \<Rightarrow> Inr (JString str, r))
          else if c = CHR ''-'' \<or> is_digit c then
            (case number_lexeme (c # cs) of
               None \<Rightarrow> Inl SyntaxError
             | Some (num, r) \<Rightarrow> Inr (JNumber num, r))
          else
            (case literal ''true'' (c # cs) of
               Some r \<Rightarrow> Inr (JBool True, r)
             | None \<Rightarrow>
                 (case literal ''false'' (c # cs) of
                    Some r \<Rightarrow> Inr (JBool False, r)
                  | None \<Rightarrow>
                      (case literal ''null'' (c # cs) of
                         Some r \<Rightarrow> Inr (JNull, r)
                       | None \<Rightarrow> Inl SyntaxError))))"
| "parse_elements 0 acc s = Inl OutOfFuel"
| "parse_elements (Suc n) acc s =
     (case parse_value n s of
        Inl e \<Rightarrow> Inl e
      | Inr (v, r) \<Rightarrow>
          (case skip_ws r of
             [] \<Rightarrow> Inl SyntaxError
           | c # r' \<Rightarrow>
               if c = CHR '','' then parse_elements n (acc @ [v]) r'
               else if c = CHR '']'' then Inr (JArray (acc @ [v]), r')
               else Inl SyntaxError))"
| "parse_members 0 acc s = Inl OutOfFuel"
| "parse_members (Suc n) acc s =
     (case skip_ws s of
        [] \<Rightarrow> Inl SyntaxError
      | q # cs \<Rightarrow>
          if q \<noteq> CHR 0x22 then Inl SyntaxError
          else
            (case string_body cs of
               None \<Rightarrow> Inl SyntaxError
             | Some (key, r) \<Rightarrow>
                 (case skip_ws r of
                    [] \<Rightarrow> Inl SyntaxError
                  | c # r' \<Rightarrow>
                      if c \<noteq> CHR '':'' then Inl SyntaxError
                      else
                        (case parse_value n r' of
                           Inl e \<Rightarrow> Inl e
                         | Inr (v, r'') \<Rightarrow>
                             (case skip_ws r'' of
                                [] \<Rightarrow> Inl SyntaxError
                              | d # r3 \<Rightarrow>
                                  if d = CHR '','' then parse_members n (acc @ [(key, v)]) r3
                                  else if d = CHR ''}'' then Inr (JObject (acc @ [(key, v)]), r3)
                                  else Inl SyntaxError)))))"

definition JSON_parse :: "string \<Rightarrow> parse_error + json" where
  "JSON_parse s =
     (case parse_value (2 * length s + 2) s of
        Inl e \<Rightarrow> Inl e
      | Inr (v, r) \<Rightarrow> if skip_ws r = [] then Inr v else Inl SyntaxError)"

text \<open>
  The effect reads the item, and when it is a non-empty string it parses it and makes
  the result the store, without a \<^verbatim>\<open>try\<close>: the result is \<open>Inl\<close> when the exception
  leaves the effect, and otherwise the value of the state \<open>progress\<close> after it.
  \<open>savedProgress\<close> is \<open>None\<close> when \<^verbatim>\<open>getItem\<close> returns null. The parsed value is not
  validated against \<^verbatim>\<open>ProgressData\<close>; the type is an unchecked annotation.
\<close>

definition emptyStore :: json where
  \<comment> \<open>\<^verbatim>\<open>useState<ProgressData>({})\<close>\<close>
  "emptyStore = JObject []"

definition loadProgress :: "string option \<Rightarrow> json \<Rightarrow> parse_error + json" where
  "loadProgress savedProgress current =
     (case savedProgress of
        None \<Rightarrow> Inr current
      | Some s \<Rightarrow>
          if s = [] then Inr current
          else (case JSON_parse s of Inl e \<Rightarrow> Inl e | Inr v \<Rightarrow> Inr v))"

subsection \<open>The specification's formulas and the inputs of its scenarios\<close>

definition specPercentage :: "nat \<Rightarrow> nat \<Rightarrow> int" where
  \<comment> \<open>the specification's \<^verbatim>\<open>round(100 * |completedChapters| / chapterCount)\<close>, in exact arithmetic\<close>
  "specPercentage n chapterCount = round (100 * real n / real chapterCount)"

definition completedOf :: "ProgressData \<Rightarrow> string \<Rightarrow> int set" where
  \<comment> \<open>the completed set of a video, empty when it has no entry\<close>
  "completedOf prog videoId =
     (case prog videoId of None \<Rightarrow> {} | Some r \<Rightarrow> set (completedChapters r))"

definition chapterAt :: "real \<Rightarrow> Chapter" where
  "chapterAt s = \<lparr>title = [], time = [], url = [], timestamp = s\<rparr>"

definition exampleChapters :: "Chapter list" where
  "exampleChapters = [chapterAt 0, chapterAt 120, chapterAt 300]"

definition fortyChapters :: "Chapter list" where
  "fortyChapters = map (\<lambda>i. chapterAt (60 * real i)) [0..<40]"

definition exampleId :: string where
  "exampleId = ''dQw4w9WgXcQ''"

definition otherId :: string where
  "otherId = ''aaaaaaaaaaa''"

definition watchedState :: component where
  \<comment> \<open>a state after two chapters of the example video and one of another video\<close>
  "watchedState =
     \<lparr>progress =
        [exampleId \<mapsto>
           \<lparr>completedChapters = [0, 1], lastWatchedChapter = 2, progressPercentage = Finite 67,
            totalWatchTime = 2, updatedAt = 1000\<rparr>,
         otherId \<mapsto>
           \<lparr>completedChapters = [0], lastWatchedChapter = 1, progressPercentage = Finite 10,
            totalWatchTime = 1, updatedAt = 500\<rparr>],
      currentChapter = 2\<rparr>"

definition toggledEntry :: VideoProgress where
  \<comment> \<open>the entry after \<^verbatim>\<open>markChapterCompleted(2)\<close> on a video of three chapters without entry\<close>
  "toggledEntry =
     \<lparr>completedChapters = [2], lastWatchedChapter = 2, progressPercentage = Finite 33,
      totalWatchTime = 0, updatedAt = 1\<rparr>"

definition initialState :: component where
  \<comment> \<open>\<^verbatim>\<open>useState<ProgressData>({})\<close> and \<^verbatim>\<open>useState(0)\<close>\<close>
  "initialState = \<lparr>progress = Map.empty, currentChapter = 0\<rparr>"

definition afterLongVideo :: component where
  \<comment> \<open>the state in which another video was watched up to its chapter 5\<close>
  "afterLongVideo =
     \<lparr>progress =
        [otherId \<mapsto>
           \<lparr>completedChapters = [0, 1, 2, 3, 4], lastWatchedChapter = 5,
            progressPercentage = Finite 50, totalWatchTime = 5, updatedAt = 500\<rparr>],
      currentChapter = 5\<rparr>"

definition tieEntry :: VideoProgress where
  \<comment> \<open>the entry after a first sample in chapter 23\<close>
  "tieEntry =
     \<lparr>completedChapters = map int [0..<23], lastWatchedChapter = 23,
      progressPercentage = Finite 57, totalWatchTime = 1, updatedAt = 1\<rparr>"

definition view :: "string \<Rightarrow> error + component \<Rightarrow> error + int \<times> VideoProgress option" where
  \<comment> \<open>what an outcome shows of one video: the current chapter and the entry\<close>
  "view videoId outcome =
     (case outcome of Inl e \<Rightarrow> Inl e | Inr st \<Rightarrow> Inr (currentChapter st, progress st videoId))"

section \<open>Chapter resolution\<close>

lemma scanChapters_upper:
  "i < k \<Longrightarrow> timestamp (chapters ! i) \<le> t \<Longrightarrow> i \<le> scanChapters chapters t k"
  by (induction k) (auto simp: less_Suc_eq)

lemma scanChapters_hit:
  "\<exists>i<k. timestamp (chapters ! i) \<le> t \<Longrightarrow>
     scanChapters chapters t k < k \<and> timestamp (chapters ! scanChapters chapters t k) \<le> t"
proof (induction k)
  case 0
  then show ?case by simp
next
  case (Suc k)
  show ?case
  proof (cases "timestamp (chapters ! k) \<le> t")
    case True
    then show ?thesis by simp
  next
    case False
    with Suc.prems have "\<exists>i<k. timestamp (chapters ! i) \<le> t"
      by (metis less_Suc_eq)
    with Suc.IH False show ?thesis by (simp add: less_Suc_eq)
  qed
qed

lemma scanChapters_none:
  "\<forall>i<k. t < timestamp (chapters ! i) \<Longrightarrow> scanChapters chapters t k = 0"
  by (induction k) (auto simp: not_le)


text \<open>
  C1. For a chapter list with non-decreasing timestamps and any time \<open>t\<close>, the
  resolved chapter is the greatest index whose timestamp is at most \<open>t\<close>: it is such
  an index whenever one exists, and every such index is at most it, so among chapters
  with equal timestamps the last one wins. When \<open>t\<close> is before the first timestamp
  (or there is no chapter) the result is 0.
\<close>

theorem findCurrentChapter_greatest:
  assumes "sorted (map timestamp chapters)"
  shows "(\<forall>i<length chapters. timestamp (chapters ! i) \<le> t \<longrightarrow> i \<le> findCurrentChapter chapters t)
       \<and> ((\<exists>i<length chapters. timestamp (chapters ! i) \<le> t) \<longrightarrow>
            findCurrentChapter chapters t < length chapters
            \<and> timestamp (chapters ! findCurrentChapter chapters t) \<le> t)
       \<and> ((chapters = [] \<or> t < timestamp (chapters ! 0)) \<longrightarrow> findCurrentChapter chapters t = 0)"
proof (intro conjI allI impI)
  fix i
  assume "i < length chapters" and "timestamp (chapters ! i) \<le> t"
  then show "i \<le> findCurrentChapter chapters t"
    unfolding findCurrentChapter_def by (rule scanChapters_upper)
next
  assume "\<exists>i<length chapters. timestamp (chapters ! i) \<le> t"
  then show "findCurrentChapter chapters t < length chapters"
    and "timestamp (chapters ! findCurrentChapter chapters t) \<le> t"
    unfolding findCurrentChapter_def using scanChapters_hit by blast+
next
  assume before: "chapters = [] \<or> t < timestamp (chapters ! 0)"
  have "\<forall>i<length chapters. t < timestamp (chapters ! i)"
  proof (intro allI impI)
    fix i
    assume i: "i < length chapters"
    with before have "t < timestamp (chapters ! 0)" by auto
    also have "timestamp (chapters ! 0) \<le> timestamp (chapters ! i)"
    proof -
      from i have "0 < length chapters" by (cases chapters) auto
      with assms i sorted_nth_mono [of "map timestamp chapters" 0 i]
      show ?thesis by (simp add: nth_map)
    qed
    finally show "t < timestamp (chapters ! i)" .
  qed
  then show "findCurrentChapter chapters t = 0"
    unfolding findCurrentChapter_def by (rule scanChapters_none)
qed

theorem findCurrentChapter_greatest_witness:
  "sorted (map timestamp exampleChapters)
   \<and> (\<exists>i<length exampleChapters. timestamp (exampleChapters ! i) \<le> 150)
   \<and> findCurrentChapter exampleChapters 150 = 1
   \<and> findCurrentChapter exampleChapters (-1) = 0"
proof -
  have s: "sorted (map timestamp exampleChapters)"
    by (simp add: exampleChapters_def chapterAt_def)
  have e: "\<exists>i<length exampleChapters. timestamp (exampleChapters ! i) \<le> 150"
    by (rule exI [of _ 0]) (simp add: exampleChapters_def chapterAt_def)
  have two: "\<not> timestamp (exampleChapters ! 2) \<le> 150"
    and one: "timestamp (exampleChapters ! 1) \<le> 150"
    and zero: "- 1 < timestamp (exampleChapters ! 0)"
    and len: "length exampleChapters = 3"
    by (simp_all add: exampleChapters_def chapterAt_def)
  from findCurrentChapter_greatest [OF s, of 150] e one len
  have "1 \<le> findCurrentChapter exampleChapters 150"
    and "findCurrentChapter exampleChapters 150 < 3"
    and "timestamp (exampleChapters ! findCurrentChapter exampleChapters 150) \<le> 150"
    by auto
  with two have r: "findCurrentChapter exampleChapters 150 = 1"
    by (metis One_nat_def Suc_1 less_Suc_eq less_antisym not_less numeral_3_eq_3)
  from findCurrentChapter_greatest [OF s, of "- 1"] zero
  have "findCurrentChapter exampleChapters (- 1) = 0" by blast
  with s e r show ?thesis by blast
qed

section \<open>The stored percentage\<close>

text \<open>
  The rounding error of a double operation is at most \<open>2^-53\<close> of the exact result.
  For a list of \<open>n < 2^32\<close> entries and \<open>len\<close> chapters the computed product
  \<open>(n / len) * 100\<close> is therefore closer than \<open>1 / (2 len)\<close> to the exact
  \<open>100 n / len\<close>, which decides the rounding everywhere but at a tie.
\<close>

lemma pow2_powi: "pow2 e = 2 powi e"
  by (simp add: pow2_def power_int_def power_one_over)

lemma pow2_pos: "0 < pow2 e"
  by (simp add: pow2_powi)

lemma pow2_add: "pow2 (a + b) = pow2 a * pow2 b"
  by (simp add: pow2_powi power_int_add)

lemma pow2_nat: "0 \<le> e \<Longrightarrow> pow2 e = 2 ^ nat e"
  by (simp add: pow2_def)

lemma pow2_neg: "0 \<le> e \<Longrightarrow> pow2 (- e) = 1 / 2 ^ nat e"
  by (cases "e = 0") (simp_all add: pow2_def)

lemma binade_bounds:
  assumes "0 < q"
  shows "pow2 (binade q) \<le> q \<and> q < pow2 (binade q + 1)"
proof (cases "1 \<le> q")
  case True
  define z where "z = \<lfloor>q\<rfloor>"
  from True have z: "0 < z" by (simp add: z_def)
  from bitlen_bounds [OF z]
  have lo: "2 ^ nat (bitlen z - 1) \<le> z" and hi: "z < 2 ^ nat (bitlen z)" by simp_all
  from z have b1: "1 \<le> bitlen z" by (simp add: bitlen_alt_def)
  have e: "binade q = bitlen z - 1"
    using True by (simp add: binade_def z_def)
  have "pow2 (binade q) = real_of_int (2 ^ nat (bitlen z - 1))"
    using b1 by (simp add: e pow2_nat)
  also have "\<dots> \<le> real_of_int z"
    using lo by (simp only: of_int_le_iff)
  also have "\<dots> \<le> q" by (simp add: z_def)
  finally have l: "pow2 (binade q) \<le> q" .
  have "q < real_of_int (z + 1)" by (simp add: z_def)
  also from hi have "z + 1 \<le> 2 ^ nat (bitlen z)" by simp
  then have "real_of_int (z + 1) \<le> real_of_int (2 ^ nat (bitlen z))"
    by (simp only: of_int_le_iff)
  also have "real_of_int (2 ^ nat (bitlen z)) = pow2 (binade q + 1)"
    using b1 by (simp add: e pow2_nat)
  finally have "q < pow2 (binade q + 1)" .
  with l show ?thesis ..
next
  case False
  define c where "c = \<lceil>1 / q\<rceil>"
  define w where "w = c - 1"
  define L where "L = bitlen w"
  from False assms have "1 < 1 / q" by simp
  then have "1 < c" unfolding c_def by (simp add: less_ceiling_iff)
  then have w: "0 < w" by (simp add: w_def)
  from bitlen_bounds [OF w]
  have lo: "2 ^ nat (L - 1) \<le> w" and hi: "w < 2 ^ nat L" by (simp_all add: L_def)
  from w have L1: "1 \<le> L" by (simp add: L_def bitlen_alt_def)
  have e: "binade q = - L"
    using False by (simp add: binade_def c_def w_def L_def)
  have "1 / q \<le> real_of_int c" by (simp add: c_def)
  also from hi have "c \<le> 2 ^ nat L" by (simp add: w_def)
  then have "real_of_int c \<le> real_of_int (2 ^ nat L)" by (simp only: of_int_le_iff)
  finally have "1 / q \<le> 2 ^ nat L" by simp
  with assms have "1 \<le> q * 2 ^ nat L"
    by (simp add: field_simps)
  then have "1 / 2 ^ nat L \<le> q"
    by (simp add: field_simps)
  moreover have "pow2 (binade q) = 1 / 2 ^ nat L"
    using L1 by (simp add: e pow2_neg)
  ultimately have l: "pow2 (binade q) \<le> q" by simp
  have "real_of_int (2 ^ nat (L - 1)) \<le> real_of_int w"
    using lo by (simp only: of_int_le_iff)
  also have "real_of_int w < 1 / q"
    unfolding w_def c_def by linarith
  finally have "2 ^ nat (L - 1) < 1 / q" by simp
  with assms have "q * 2 ^ nat (L - 1) < 1"
    by (simp add: field_simps)
  then have "q < 1 / 2 ^ nat (L - 1)"
    by (simp add: field_simps)
  moreover have "pow2 (binade q + 1) = 1 / 2 ^ nat (L - 1)"
    using L1 pow2_neg [of "L - 1"] by (simp add: e)
  ultimately have "q < pow2 (binade q + 1)" by simp
  with l show ?thesis ..
qed

lemma round_ties_even_error: "\<bar>real_of_int (round_ties_even s) - s\<bar> \<le> 1 / 2"
proof -
  have "real_of_int \<lfloor>s\<rfloor> \<le> s" and "s < real_of_int \<lfloor>s\<rfloor> + 1"
    by linarith+
  then show ?thesis
    by (auto simp: round_ties_even_def Let_def abs_le_iff)
qed

lemma fl64_error:
  assumes "0 < q"
  shows "\<bar>fl64 q - q\<bar> \<le> q / 2 ^ 53"
proof -
  define e where "e = binade q"
  define s where "s = q * pow2 (52 - e)"
  define m where "m = round_ties_even s"
  from assms have f: "fl64 q = real_of_int m * pow2 (e - 52)"
    by (simp add: fl64_def Let_def e_def s_def m_def)
  have "pow2 (52 - e) * pow2 (e - 52) = pow2 0"
    by (simp add: pow2_add [symmetric])
  then have one: "pow2 (52 - e) * pow2 (e - 52) = 1"
    by (simp add: pow2_def)
  then have q: "q = s * pow2 (e - 52)"
    by (simp add: s_def mult.assoc)
  have "pow2 (e - 52) = pow2 e * pow2 (- 52)"
    using pow2_add [of e "- 52"] by simp
  then have p: "pow2 (e - 52) = pow2 e / 2 ^ 52"
    by (simp add: pow2_def)
  have "\<bar>fl64 q - q\<bar> = \<bar>real_of_int m - s\<bar> * pow2 (e - 52)"
  proof -
    have "fl64 q - q = (real_of_int m - s) * pow2 (e - 52)"
      using f q by (simp add: algebra_simps)
    then show ?thesis
      using pow2_pos [of "e - 52"] by (simp add: abs_mult)
  qed
  also have "\<dots> \<le> (1 / 2) * pow2 (e - 52)"
    using round_ties_even_error [of s] pow2_pos [of "e - 52"]
    by (intro mult_right_mono) (simp_all add: m_def)
  also have "\<dots> = pow2 e / 2 ^ 53"
    by (simp add: p)
  also have "\<dots> \<le> q / 2 ^ 53"
    using binade_bounds [OF assms] by (simp add: e_def divide_right_mono)
  finally show ?thesis .
qed


lemma percentage_value_close:
  assumes len: "0 < len" and n: "0 < n" and bound: "n < 2 ^ 32"
  shows "\<bar>fl64 (fl64 (real n / real len) * 100) - 100 * real n / real len\<bar> < 1 / (2 * real len)"
proof -
  define q where "q = real n / real len"
  define a where "a = fl64 q"
  define y where "y = fl64 (a * 100)"
  from len n have q: "0 < q" by (simp add: q_def)
  from fl64_error [OF q] have ea: "\<bar>a - q\<bar> \<le> q / 2 ^ 53" by (simp add: a_def)
  have small: "q / 2 ^ 53 < q" using q by simp
  with ea have a: "0 < a" by linarith
  from ea small have a2: "a \<le> 2 * q" by linarith
  from a have "0 < a * 100" by simp
  from fl64_error [OF this] have ey: "\<bar>y - a * 100\<bar> \<le> a * 100 / 2 ^ 53" by (simp add: y_def)
  define d where "d = q / 2 ^ 53"
  have ad: "a * 100 / 2 ^ 53 \<le> 200 * d"
    using a2 by (simp add: d_def)
  from ea have ea': "\<bar>a - q\<bar> \<le> d"
    unfolding d_def .
  from ey ad have ey': "\<bar>y - a * 100\<bar> \<le> 200 * d"
    by (rule order_trans)
  from ea' ey' have "\<bar>y - 100 * q\<bar> \<le> 300 * d"
    unfolding abs_le_iff by linarith
  then have close: "\<bar>y - 100 * q\<bar> \<le> 300 * q / 2 ^ 53"
    unfolding d_def by simp
  from bound have "real n < 2 ^ 32"
    by (metis of_nat_less_iff of_nat_numeral of_nat_power)
  then have "600 * real n < 2 ^ 53" by simp
  then have h: "300 * real n / 2 ^ 53 < 1 / 2" by simp
  have "(300 * real n / 2 ^ 53) / real len < (1 / 2) / real len"
    by (rule divide_strict_right_mono) (use h len in simp_all)
  then have "300 * q / 2 ^ 53 < 1 / (2 * real len)"
    by (simp add: q_def)
  with close have "\<bar>y - 100 * q\<bar> < 1 / (2 * real len)" by linarith
  then show ?thesis by (simp add: y_def a_def q_def)
qed

lemma specPercentage_div:
  "0 < len \<Longrightarrow> specPercentage n len = int ((200 * n + len) div (2 * len))"
proof -
  assume len: "0 < len"
  have "100 * real n / real len + 1 / 2 = real (200 * n + len) / real (2 * len)"
    using len by (simp add: field_simps)
  then have "specPercentage n len = \<lfloor>real (200 * n + len) / real (2 * len)\<rfloor>"
    by (simp add: specPercentage_def round_def)
  also have "\<dots> = int ((200 * n + len) div (2 * len))"
    by (rule floor_divide_of_nat_eq)
  finally show ?thesis .
qed

lemma round_stable:
  fixes y :: real
  assumes len: "0 < len"
    and close: "\<bar>y - 100 * real n / real len\<bar> < 1 / (2 * real len)"
  shows "(\<lfloor>y + 1 / 2\<rfloor> = specPercentage n len
        \<or> (\<lfloor>y + 1 / 2\<rfloor> = specPercentage n len - 1 \<and> (200 * n + len) mod (2 * len) = 0))
       \<and> \<bar>real_of_int \<lfloor>y + 1 / 2\<rfloor> - 100 * real n / real len\<bar> \<le> 1 / 2"
proof -
  define N where "N = 200 * n + len"
  define D where "D = 2 * len"
  define k where "k = N div D"
  define r where "r = N mod D"
  from len have D: "0 < D" by (simp add: D_def)
  have sp: "specPercentage n len = int k"
    using specPercentage_div [OF len] by (simp add: k_def N_def D_def)
  have "N = k * D + r" by (simp add: k_def r_def)
  then have "real N = real k * real D + real r"
    by (metis of_nat_add of_nat_mult)
  then have X: "real N / real D = real k + real r / real D"
    using D by (simp add: field_simps)
  have XY: "100 * real n / real len + 1 / 2 = real N / real D"
    using len by (simp add: N_def D_def field_simps)
  have "(y + 1 / 2) - real N / real D = y - 100 * real n / real len"
    by (simp add: XY [symmetric])
  moreover have "1 / real D = 1 / (2 * real len)"
    by (simp add: D_def)
  ultimately have c: "\<bar>(y + 1 / 2) - real N / real D\<bar> < 1 / real D"
    using close by simp
  have rD: "r < D" using D by (simp add: r_def)
  show ?thesis
  proof (cases "r = 0")
    case True
    with X have "real N / real D = real k" by simp
    with c have "\<bar>(y + 1 / 2) - real k\<bar> < 1 / real D" by simp
    moreover have "1 / real D \<le> 1" using D by simp
    ultimately have "real k - 1 < y + 1 / 2" and "y + 1 / 2 < real k + 1"
      by linarith+
    then have f: "\<lfloor>y + 1 / 2\<rfloor> = int k \<or> \<lfloor>y + 1 / 2\<rfloor> = int k - 1"
      by (cases "real k \<le> y + 1 / 2") (auto simp: floor_eq_iff)
    from XY \<open>real N / real D = real k\<close> have x: "100 * real n / real len = real k - 1 / 2"
      by simp
    from f have "\<bar>real_of_int \<lfloor>y + 1 / 2\<rfloor> - (real k - 1 / 2)\<bar> \<le> 1 / 2"
      by auto
    with f True sp show ?thesis
      unfolding x by (auto simp: r_def N_def D_def)
  next
    case False
    then have "1 \<le> real r" by simp
    then have lo: "1 / real D \<le> real r / real D"
      using D by (simp add: divide_right_mono)
    from rD have "real r + 1 \<le> real D"
      by (metis Suc_leI of_nat_Suc of_nat_le_iff add.commute)
    then have "(real r + 1) / real D \<le> 1"
      using D by simp
    then have hi: "real r / real D \<le> 1 - 1 / real D"
      by (simp add: add_divide_distrib)
    from c lo hi X have "real k < y + 1 / 2" and "y + 1 / 2 < real k + 1"
      by linarith+
    then have f: "\<lfloor>y + 1 / 2\<rfloor> = int k"
      by (simp add: floor_eq_iff)
    from XY X have x: "100 * real n / real len = real k + real r / real D - 1 / 2"
      by simp
    have "0 \<le> 1 / real D" by simp
    with lo hi have "\<bar>real k - (real k + real r / real D - 1 / 2)\<bar> \<le> 1 / 2"
      unfolding abs_le_iff by linarith
    with f sp show ?thesis
      unfolding x by simp
  qed
qed

lemma percentageOf_spec:
  assumes len: "0 < len" and bound: "n < 2 ^ 32"
  shows "\<exists>k. percentageOf n len = Finite (of_int k)
           \<and> (k = specPercentage n len
              \<or> (k = specPercentage n len - 1 \<and> (200 * n + len) mod (2 * len) = 0))
           \<and> \<bar>real_of_int k - 100 * real n / real len\<bar> \<le> 1 / 2"
proof (cases "n = 0")
  case True
  with len have "percentageOf n len = Finite (of_int 0)"
    by (simp add: percentageOf_def length_div_def fl64_def)
  moreover from True have "specPercentage n len = 0"
    by (simp add: specPercentage_def)
  moreover from True have "\<bar>real_of_int 0 - 100 * real n / real len\<bar> \<le> 1 / 2"
    by simp
  ultimately show ?thesis by (intro exI [of _ 0]) simp
next
  case False
  then have n: "0 < n" by simp
  from len have "percentageOf n len =
      Finite (of_int \<lfloor>fl64 (fl64 (real n / real len) * 100) + 1 / 2\<rfloor>)"
    by (simp add: percentageOf_def length_div_def)
  with round_stable [OF len percentage_value_close [OF len n bound]]
  show ?thesis by metis
qed

text \<open>
  A natural number up to \<open>2^53\<close> is a double, so incrementing a watch time that is a
  natural number below \<open>2^53\<close> is exact; at \<open>2^53\<close> the increment is rounded away.
\<close>

lemma round_ties_even_of_int: "round_ties_even (real_of_int z) = z"
  by (simp add: round_ties_even_def)

lemma fl64_exact:
  assumes "0 < q" and "q * pow2 (52 - binade q) = real_of_int z"
  shows "fl64 q = q"
proof -
  have "pow2 (52 - binade q) * pow2 (binade q - 52) = pow2 0"
    by (simp add: pow2_add [symmetric])
  then have one: "pow2 (52 - binade q) * pow2 (binade q - 52) = 1"
    by (simp add: pow2_def)
  from assms have "fl64 q = real_of_int z * pow2 (binade q - 52)"
    by (simp add: fl64_def Let_def round_ties_even_of_int)
  also have "\<dots> = q * (pow2 (52 - binade q) * pow2 (binade q - 52))"
    by (simp add: assms(2) [symmetric] mult.assoc)
  finally show ?thesis by (simp add: one)
qed

lemma pow2_mono: "a \<le> b \<Longrightarrow> pow2 a \<le> pow2 b"
  by (simp add: pow2_powi power_int_increasing)

lemma double_of_nat:
  assumes "n \<le> 2 ^ 53"
  shows "double (real n) = real n"
proof (cases "n = 0")
  case True
  then show ?thesis by (simp add: double_def fl64_def)
next
  case False
  then have q: "0 < real n" and one: "1 \<le> real n" by simp_all
  define e where "e = binade (real n)"
  from binade_bounds [OF q] have lo: "pow2 e \<le> real n" and hi: "real n < pow2 (e + 1)"
    by (simp_all add: e_def)
  have e0: "0 \<le> e"
  proof (rule ccontr)
    assume "\<not> 0 \<le> e"
    then have "e + 1 \<le> 0" by simp
    from pow2_mono [OF this] have "pow2 (e + 1) \<le> 1" by (simp add: pow2_def)
    with hi one show False by simp
  qed
  from assms have n53: "real n \<le> 2 ^ 53"
    by (metis of_nat_le_iff of_nat_numeral of_nat_power)
  have e53: "e \<le> 53"
  proof (rule ccontr)
    assume "\<not> e \<le> 53"
    then have "54 \<le> e" by simp
    from pow2_mono [OF this] lo n53 show False by (simp add: pow2_def)
  qed
  have "\<exists>z. real n * pow2 (52 - e) = real_of_int z"
  proof (cases "e \<le> 52")
    case True
    then have "pow2 (52 - e) = 2 ^ nat (52 - e)" by (simp add: pow2_nat)
    then have "real n * pow2 (52 - e) = real_of_int (int n * 2 ^ nat (52 - e))" by simp
    then show ?thesis ..
  next
    case False
    with e53 have e: "e = 53" by simp
    with lo have "2 ^ 53 \<le> real n" by (simp add: pow2_def)
    with n53 have "real n = 2 ^ 53" by simp
    then have "real n * pow2 (52 - e) = real_of_int (2 ^ 52)"
      by (simp add: e pow2_def)
    then show ?thesis ..
  qed
  then obtain z where "real n * pow2 (52 - binade (real n)) = real_of_int z"
    by (auto simp: e_def)
  from fl64_exact [OF q this] show ?thesis by (simp add: double_def)
qed

lemma double_plus_one:
  assumes "w = real m" and "m < 2 ^ 53"
  shows "double (w + 1) = w + 1"
proof -
  from assms(2) have "Suc m \<le> 2 ^ 53" by simp
  from double_of_nat [OF this] assms(1) show ?thesis by (simp add: add.commute)
qed

lemma double_absorbs: "double (2 ^ 53 + 1) = 2 ^ 53"
  by code_simp

section \<open>Helper lemmas on the two updaters\<close>

text \<open>
  An updater returns a store unless the key reads an inherited value; the store it
  returns differs from the former one at the key of the video only.
\<close>

lemma fold_insert_set:
  "set (fold (\<lambda>x seen. if x \<in> set seen then seen else seen @ [x]) xs acc) = set acc \<union> set xs"
  by (induction xs arbitrary: acc) auto

lemma fold_insert_distinct:
  "distinct acc \<Longrightarrow> distinct (fold (\<lambda>x seen. if x \<in> set seen then seen else seen @ [x]) xs acc)"
  by (induction xs arbitrary: acc) auto

lemma set_uniqueValues: "set (uniqueValues xs) = set xs"
  by (simp add: uniqueValues_def fold_insert_set)

lemma distinct_uniqueValues: "distinct (uniqueValues xs)"
  by (simp add: uniqueValues_def fold_insert_distinct)

lemma getProperty_Inherited_iff:
  "getProperty prev videoId = Inherited \<longleftrightarrow>
     prev videoId = None \<and> videoId \<in> set objectPrototypeKeys"
  by (simp add: getProperty_def split: option.splits)

lemma getProperty_Undefined_iff:
  "getProperty prev videoId = Undefined \<longleftrightarrow>
     prev videoId = None \<and> videoId \<notin> set objectPrototypeKeys"
  by (simp add: getProperty_def split: option.splits)

lemma valueOrDefault_Entry:
  "getProperty prev videoId \<noteq> Inherited \<Longrightarrow>
   valueOrDefault prev videoId now = Entry (recordOrDefault prev videoId now)"
  by (simp add: valueOrDefault_def getProperty_def recordOrDefault_def split: option.splits if_splits)

lemma valueOrDefault_Inherited:
  "getProperty prev videoId = Inherited \<Longrightarrow> valueOrDefault prev videoId now = Inherited"
  by (simp add: valueOrDefault_def)

lemma applyChapterAdvance_Inr:
  "getProperty prev videoId \<noteq> Inherited \<Longrightarrow>
   applyChapterAdvance chapters videoId b now prev =
     Inr (prev(videoId \<mapsto> (recordOrDefault prev videoId now)
       \<lparr>completedChapters :=
          uniqueValues (completedChapters (recordOrDefault prev videoId now) @ map int [0..<b]),
        lastWatchedChapter := int b,
        progressPercentage :=
          percentageOf
            (length (uniqueValues (completedChapters (recordOrDefault prev videoId now) @ map int [0..<b])))
            (length chapters),
        totalWatchTime := double (totalWatchTime (recordOrDefault prev videoId now) + 1),
        updatedAt := now\<rparr>))"
  by (simp add: applyChapterAdvance_def valueOrDefault_Entry Let_def)

lemma applyChapterAdvance_Inl:
  "getProperty prev videoId = Inherited \<Longrightarrow>
   applyChapterAdvance chapters videoId b now prev = Inl TypeError"
  by (simp add: applyChapterAdvance_def valueOrDefault_Inherited)

lemma applyChapterAdvance_returns:
  "applyChapterAdvance chapters videoId b now prev = Inr stored \<Longrightarrow>
   getProperty prev videoId \<noteq> Inherited"
  using applyChapterAdvance_Inl [of prev videoId chapters b now] by auto

lemma applyChapterAdvance_entry:
  "applyChapterAdvance chapters videoId b now prev = Inr stored \<Longrightarrow>
   stored videoId =
     Some ((recordOrDefault prev videoId now)
       \<lparr>completedChapters :=
          uniqueValues (completedChapters (recordOrDefault prev videoId now) @ map int [0..<b]),
        lastWatchedChapter := int b,
        progressPercentage :=
          percentageOf
            (length (uniqueValues (completedChapters (recordOrDefault prev videoId now) @ map int [0..<b])))
            (length chapters),
        totalWatchTime := double (totalWatchTime (recordOrDefault prev videoId now) + 1),
        updatedAt := now\<rparr>)"
  using applyChapterAdvance_Inr [OF applyChapterAdvance_returns, of chapters videoId b now prev stored]
  by auto

lemma applyChapterAdvance_other:
  "applyChapterAdvance chapters videoId b now prev = Inr stored \<Longrightarrow> v \<noteq> videoId \<Longrightarrow>
   stored v = prev v"
  using applyChapterAdvance_Inr [OF applyChapterAdvance_returns, of chapters videoId b now prev stored]
  by auto

lemma toggleCompletion_Inr:
  "getProperty prev videoId \<noteq> Inherited \<Longrightarrow>
   toggleCompletion chapters videoId i now prev =
     Inr (prev(videoId \<mapsto> (recordOrDefault prev videoId now)
       \<lparr>completedChapters :=
          (if i \<in> set (completedChapters (recordOrDefault prev videoId now))
           then filter (\<lambda>idx. idx \<noteq> i) (completedChapters (recordOrDefault prev videoId now))
           else completedChapters (recordOrDefault prev videoId now) @ [i]),
        lastWatchedChapter := i,
        progressPercentage :=
          percentageOf
            (length (if i \<in> set (completedChapters (recordOrDefault prev videoId now))
                     then filter (\<lambda>idx. idx \<noteq> i) (completedChapters (recordOrDefault prev videoId now))
                     else completedChapters (recordOrDefault prev videoId now) @ [i]))
            (length chapters),
        updatedAt := now\<rparr>))"
  by (simp add: toggleCompletion_def valueOrDefault_Entry Let_def)

lemma toggleCompletion_Inl:
  "getProperty prev videoId = Inherited \<Longrightarrow>
   toggleCompletion chapters videoId i now prev = Inl TypeError"
  by (simp add: toggleCompletion_def valueOrDefault_Inherited)

lemma toggleCompletion_returns:
  "toggleCompletion chapters videoId i now prev = Inr stored \<Longrightarrow>
   getProperty prev videoId \<noteq> Inherited"
  using toggleCompletion_Inl [of prev videoId chapters i now] by auto

lemma toggleCompletion_entry:
  "toggleCompletion chapters videoId i now prev = Inr stored \<Longrightarrow>
   stored videoId =
     Some ((recordOrDefault prev videoId now)
       \<lparr>completedChapters :=
          (if i \<in> set (completedChapters (recordOrDefault prev videoId now))
           then filter (\<lambda>idx. idx \<noteq> i) (completedChapters (recordOrDefault prev videoId now))
           else completedChapters (recordOrDefault prev videoId now) @ [i]),
        lastWatchedChapter := i,
        progressPercentage :=
          percentageOf
            (length (if i \<in> set (completedChapters (recordOrDefault prev videoId now))
                     then filter (\<lambda>idx. idx \<noteq> i) (completedChapters (recordOrDefault prev videoId now))
                     else completedChapters (recordOrDefault prev videoId now) @ [i]))
            (length chapters),
        updatedAt := now\<rparr>)"
  using toggleCompletion_Inr [OF toggleCompletion_returns, of chapters videoId i now prev stored]
  by auto

lemma toggleCompletion_other:
  "toggleCompletion chapters videoId i now prev = Inr stored \<Longrightarrow> v \<noteq> videoId \<Longrightarrow>
   stored v = prev v"
  using toggleCompletion_Inr [OF toggleCompletion_returns, of chapters videoId i now prev stored]
  by auto

lemma completedOf_recordOrDefault:
  "completedOf prog videoId = set (completedChapters (recordOrDefault prog videoId now))"
  by (simp add: completedOf_def recordOrDefault_def defaultProgress_def split: option.splits)


lemma completedOf_toggleCompletion:
  "toggleCompletion chapters videoId i now prev = Inr stored \<Longrightarrow>
   completedOf stored videoId =
     (if i \<in> completedOf prev videoId then completedOf prev videoId - {i}
      else insert i (completedOf prev videoId))"
  by (auto simp: completedOf_def [of stored] toggleCompletion_entry
      completedOf_recordOrDefault [of prev videoId now])

lemma toggleCompletion_distinct:
  "toggleCompletion chapters videoId i now prev = Inr stored \<Longrightarrow> stored videoId = Some r \<Longrightarrow>
   distinct (completedChapters (recordOrDefault prev videoId now)) \<Longrightarrow>
   distinct (completedChapters r)"
  by (auto simp: toggleCompletion_entry)

lemma applyChapterAdvance_distinct:
  "applyChapterAdvance chapters videoId b now prev = Inr stored \<Longrightarrow> stored videoId = Some r \<Longrightarrow>
   distinct (completedChapters r)"
  by (auto simp: applyChapterAdvance_entry distinct_uniqueValues)

lemma stored_percentage:
  "applyChapterAdvance chapters videoId b now prev = Inr stored
     \<or> toggleCompletion chapters videoId i now prev = Inr stored \<Longrightarrow>
   stored videoId = Some r \<Longrightarrow>
   progressPercentage r = percentageOf (length (completedChapters r)) (length chapters)"
  by (auto simp: applyChapterAdvance_entry toggleCompletion_entry)

lemma trackProgress_forward:
  "chapters \<noteq> [] \<Longrightarrow> capturedChapter < int (findCurrentChapter chapters t) \<Longrightarrow>
   trackProgress chapters videoId capturedChapter (Some t) now st =
     (case applyChapterAdvance chapters videoId (findCurrentChapter chapters t) now (progress st) of
        Inl e \<Rightarrow> Inl e
      | Inr stored \<Rightarrow>
          Inr (st\<lparr>currentChapter := int (findCurrentChapter chapters t), progress := stored\<rparr>))"
  by (simp add: trackProgress_def Let_def)

lemma trackProgress_progress_cases:
  "trackProgress chapters videoId capturedChapter player now st = Inr st' \<Longrightarrow>
   progress st' = progress st
   \<or> (\<exists>t. player = Some t \<and> chapters \<noteq> []
        \<and> capturedChapter < int (findCurrentChapter chapters t)
        \<and> applyChapterAdvance chapters videoId (findCurrentChapter chapters t) now (progress st)
            = Inr (progress st'))"
  by (auto simp: trackProgress_def Let_def split: option.splits if_splits sum.splits)

lemma markChapterCompleted_cases:
  "markChapterCompleted chapters videoId i now st = Inr st' \<Longrightarrow>
   (videoId = [] \<and> st' = st)
   \<or> (videoId \<noteq> [] \<and> toggleCompletion chapters videoId i now (progress st) = Inr (progress st')
       \<and> currentChapter st' = currentChapter st)"
  by (auto simp: markChapterCompleted_def split: if_splits sum.splits)

lemma markChapterCompleted_Inr:
  "videoId \<noteq> [] \<Longrightarrow> getProperty (progress st) videoId \<noteq> Inherited \<Longrightarrow>
   \<exists>stored. toggleCompletion chapters videoId i now (progress st) = Inr stored
     \<and> markChapterCompleted chapters videoId i now st = Inr (st\<lparr>progress := stored\<rparr>)"
  by (simp add: markChapterCompleted_def toggleCompletion_Inr)

section \<open>The percentage after a mutation\<close>

text \<open>
  C3, as the code has it. After an advance or a toggle on a video with at least one
  chapter, the stored percentage is computed anew from the completed list of the new
  entry and the chapter count of that call, as \<^verbatim>\<open>Math.round\<close> of the double product
  \<open>(n / count) * 100\<close>. It is an integer within one half of \<open>100 n / count\<close>, and it
  is the specification's \<open>round(100 n / count)\<close> unless \<open>100 n / count\<close> lies exactly
  half-way between two integers, where it is that value or the integer below. Here
  \<open>n\<close> is the length of the stored list (below \<open>2^32\<close>, as for every array), which is
  the size of the completed set whenever the former list had no duplicates.
\<close>

theorem progressPercentage_recomputed:
  assumes "chapters \<noteq> []"
    and "applyChapterAdvance chapters videoId b now prev = Inr stored
         \<or> toggleCompletion chapters videoId i now prev = Inr stored"
    and "stored videoId = Some r"
    and "length (completedChapters r) < 2 ^ 32"
  shows "\<exists>k. progressPercentage r = Finite (of_int k)
           \<and> (k = specPercentage (length (completedChapters r)) (length chapters)
              \<or> (k = specPercentage (length (completedChapters r)) (length chapters) - 1
                  \<and> (200 * length (completedChapters r) + length chapters)
                       mod (2 * length chapters) = 0))
           \<and> \<bar>real_of_int k - 100 * real (length (completedChapters r)) / real (length chapters)\<bar>
                \<le> 1 / 2
           \<and> (distinct (completedChapters (recordOrDefault prev videoId now)) \<longrightarrow>
                length (completedChapters r) = card (set (completedChapters r)))"
proof -
  from assms(1) have len: "0 < length chapters" by simp
  have d: "distinct (completedChapters r)"
    if "distinct (completedChapters (recordOrDefault prev videoId now))"
    using assms(2,3) that applyChapterAdvance_distinct toggleCompletion_distinct by blast
  from percentageOf_spec [OF len assms(4)] stored_percentage [OF assms(2,3)] d
  show ?thesis
    by (metis distinct_card)
qed

theorem progressPercentage_recomputed_witness:
  "exampleChapters \<noteq> []
   \<and> toggleCompletion exampleChapters exampleId 2 1 Map.empty = Inr [exampleId \<mapsto> toggledEntry]
   \<and> length (completedChapters toggledEntry) < 2 ^ 32
   \<and> distinct (completedChapters (recordOrDefault Map.empty exampleId 1))
   \<and> length (completedChapters toggledEntry) = card (set (completedChapters toggledEntry))
   \<and> (\<exists>k. progressPercentage toggledEntry = Finite (of_int k)
         \<and> \<bar>real_of_int k
              - 100 * real (length (completedChapters toggledEntry)) / real (length exampleChapters)\<bar>
             \<le> 1 / 2)"
proof -
  have dis: "distinct (completedChapters (recordOrDefault Map.empty exampleId 1))"
    by (simp add: recordOrDefault_def defaultProgress_def)
  have h1: "exampleChapters \<noteq> []"
    by (simp add: exampleChapters_def)
  have p: "percentageOf (Suc 0) (Suc (Suc (Suc 0))) = Finite 33"
    by code_simp
  have g: "getProperty Map.empty exampleId \<noteq> Inherited"
    by (simp add: getProperty_def exampleId_def objectPrototypeKeys_def)
  have e: "toggleCompletion exampleChapters exampleId 2 1 Map.empty = Inr [exampleId \<mapsto> toggledEntry]"
    by (simp add: toggleCompletion_Inr [OF g] recordOrDefault_def defaultProgress_def
        toggledEntry_def exampleChapters_def p)
  have s: "[exampleId \<mapsto> toggledEntry] exampleId = Some toggledEntry"
    by simp
  have l: "length (completedChapters toggledEntry) < 2 ^ 32"
    by (simp add: toggledEntry_def)
  from progressPercentage_recomputed [OF h1 disjI2 [OF e] s l] h1 e l dis
  show ?thesis by blast
qed

text \<open>
  C3 as stated fails at a tie. With 40 chapters and a first sample in chapter 23, the
  chapters 0 to 22 are completed; \<open>23 / 40\<close> is rounded down to a double, the
  product with 100 is \<open>57.49999999999999\<close> and the stored percentage is 57, while
  \<open>round(100 * 23 / 40) = round(57.5) = 58\<close>.
\<close>

theorem progressPercentage_tie_counterexample:
  "view exampleId (trackProgress fortyChapters exampleId 0 (Some 1385) 1 initialState)
     = Inr (23, Some tieEntry)
   \<and> progressPercentage tieEntry = Finite 57
   \<and> length (completedChapters tieEntry) = 23
   \<and> length fortyChapters = 40
   \<and> specPercentage 23 40 = 58"
  by code_simp

section \<open>Forward advance\<close>

text \<open>
  What one call of the sampling step stores. When the sample resolves to a chapter
  \<open>b\<close> above the chapter the callback holds and the key has an entry or no property
  at all, the step returns, the current chapter is \<open>b\<close>, and the entry of the video
  has as completed set the former set (empty for an unknown video) together with
  \<open>{0, ..., b-1}\<close>, without duplicates; the last watched chapter is \<open>b\<close>; the watch
  time is the double next to the former one plus 1, which is the former one plus 1
  for a natural number below \<open>2^53\<close>; the percentage is the one computed from the new
  list and the chapter count, an integer within one half of the exact quotient; the
  stamp is the clock value of the step.
\<close>

lemma trackProgress_forward_advance:
  assumes "chapters \<noteq> []"
    and "findCurrentChapter chapters t = b"
    and "capturedChapter < int b"
    and "getProperty (progress st) videoId \<noteq> Inherited"
  shows "\<exists>st' r. trackProgress chapters videoId capturedChapter (Some t) now st = Inr st'
          \<and> currentChapter st' = int b
          \<and> progress st' videoId = Some r
          \<and> set (completedChapters r) = completedOf (progress st) videoId \<union> {0..<int b}
          \<and> distinct (completedChapters r)
          \<and> lastWatchedChapter r = int b
          \<and> totalWatchTime r = double (totalWatchTime (recordOrDefault (progress st) videoId now) + 1)
          \<and> (\<forall>m. totalWatchTime (recordOrDefault (progress st) videoId now) = real m \<and> m < 2 ^ 53
                \<longrightarrow> totalWatchTime r = totalWatchTime (recordOrDefault (progress st) videoId now) + 1)
          \<and> progressPercentage r = percentageOf (length (completedChapters r)) (length chapters)
          \<and> (length (completedChapters r) < 2 ^ 32 \<longrightarrow>
               (\<exists>k. progressPercentage r = Finite (of_int k)
                  \<and> (k = specPercentage (length (completedChapters r)) (length chapters)
                     \<or> (k = specPercentage (length (completedChapters r)) (length chapters) - 1
                        \<and> (200 * length (completedChapters r) + length chapters)
                             mod (2 * length chapters) = 0))
                  \<and> \<bar>real_of_int k
                       - 100 * real (length (completedChapters r)) / real (length chapters)\<bar>
                      \<le> 1 / 2))
          \<and> updatedAt r = now"
proof -
  define old where "old = recordOrDefault (progress st) videoId now"
  define cs where "cs = uniqueValues (completedChapters old @ map int [0..<b])"
  define r where "r = old\<lparr>completedChapters := cs, lastWatchedChapter := int b,
      progressPercentage := percentageOf (length cs) (length chapters),
      totalWatchTime := double (totalWatchTime old + 1), updatedAt := now\<rparr>"
  define st' where "st' = st\<lparr>currentChapter := int b, progress := (progress st)(videoId \<mapsto> r)\<rparr>"
  from assms have run: "trackProgress chapters videoId capturedChapter (Some t) now st = Inr st'"
    by (simp add: trackProgress_forward applyChapterAdvance_Inr st'_def r_def cs_def old_def)
  have img: "int ` {0..<b} = {0..<int b}"
    by (simp add: image_int_atLeastLessThan)
  have fields: "completedChapters r = cs" "lastWatchedChapter r = int b" "updatedAt r = now"
    "totalWatchTime r = double (totalWatchTime old + 1)"
    "progressPercentage r = percentageOf (length cs) (length chapters)"
    by (simp_all add: r_def)
  have state: "currentChapter st' = int b" "progress st' videoId = Some r"
    by (simp_all add: st'_def)
  have s: "set (completedChapters r) = completedOf (progress st) videoId \<union> {0..<int b}"
    by (simp add: fields cs_def set_uniqueValues old_def
        completedOf_recordOrDefault [of _ _ now] img)
  have d: "distinct (completedChapters r)"
    by (simp add: fields cs_def distinct_uniqueValues)
  from assms(1) have len: "0 < length chapters" by simp
  have pin: "length (completedChapters r) < 2 ^ 32 \<longrightarrow>
      (\<exists>k. progressPercentage r = Finite (of_int k)
       \<and> (k = specPercentage (length (completedChapters r)) (length chapters)
          \<or> (k = specPercentage (length (completedChapters r)) (length chapters) - 1
             \<and> (200 * length (completedChapters r) + length chapters)
                  mod (2 * length chapters) = 0))
       \<and> \<bar>real_of_int k - 100 * real (length (completedChapters r)) / real (length chapters)\<bar>
           \<le> 1 / 2)"
    using percentageOf_spec [OF len, of "length cs"] by (simp add: fields)
  have w: "\<forall>m. totalWatchTime old = real m \<and> m < 2 ^ 53 \<longrightarrow> totalWatchTime r = totalWatchTime old + 1"
    using double_plus_one [of "totalWatchTime old"] by (simp add: fields)
  have p: "progressPercentage r = percentageOf (length (completedChapters r)) (length chapters)"
    by (simp add: fields)
  show ?thesis
    unfolding old_def [symmetric]
    by (intro exI [of _ st'] exI [of _ r] conjI)
      (rule run state s d fields w p pin)+
qed

text \<open>
  C2. A forward advance is to store the completed chapters below the new one, the
  last watched chapter, the watch time, the percentage and the stamp. A step that
  stores does so (the lemma above), but the step decides with the chapter its callback
  captured when the player was created, not with the recorded one. Loading a video leaves the current chapter as it is: after a video
  watched up to chapter 5, the player of the next video captures 5. Its first sample,
  in chapter 0, records 0 as current chapter; the sample at 130 seconds resolves to
  chapter 1, a forward advance from 0, and the current chapter becomes 1, yet the
  video gets no entry: chapter 0 is not completed, nothing is stored.
\<close>

theorem forward_advance_not_recorded:
  "view exampleId (playerSession exampleChapters exampleId [(10, 1)] afterLongVideo)
     = Inr (0, None)
   \<and> findCurrentChapter exampleChapters 130 = 1
   \<and> view exampleId (playerSession exampleChapters exampleId [(10, 1), (130, 2)] afterLongVideo)
     = Inr (1, None)"
  by code_simp

section \<open>Backward movement\<close>

text \<open>
  One call of the sampling step that resolves to a chapter below the one its callback
  holds changes the current chapter and nothing else.
\<close>

lemma trackProgress_below_captured:
  assumes "chapters \<noteq> []"
    and "int (findCurrentChapter chapters t) < capturedChapter"
  shows "trackProgress chapters videoId capturedChapter (Some t) now st =
           Inr (st\<lparr>currentChapter := int (findCurrentChapter chapters t)\<rparr>)"
  using assms by (simp add: trackProgress_def Let_def)

text \<open>
  C7. The chapter the callback holds is the one of the render that created the player,
  so a sample below the recorded chapter is still above the captured one once playback
  has left the first chapter, and the step rewrites the entry. A player created in the
  initial state captures chapter 0. After samples in chapters 1 and 2 the current
  chapter is 2 and the entry holds chapters 0 and 1, last watched chapter 2, watch
  time 2. The next sample, at 130 seconds, resolves to chapter 1, below the recorded
  2: the completed chapters stay, but the last watched chapter becomes 1, the watch
  time 3 and the stamp 3.
\<close>

theorem backward_sample_rewrites_entry:
  "view exampleId (playerSession exampleChapters exampleId [(130, 1), (310, 2)] initialState)
     = Inr (2, Some \<lparr>completedChapters = [0, 1], lastWatchedChapter = 2,
                     progressPercentage = Finite 67, totalWatchTime = 2, updatedAt = 2\<rparr>)
   \<and> findCurrentChapter exampleChapters 130 = 1
   \<and> view exampleId
        (playerSession exampleChapters exampleId [(130, 1), (310, 2), (130, 3)] initialState)
     = Inr (1, Some \<lparr>completedChapters = [0, 1], lastWatchedChapter = 1,
                     progressPercentage = Finite 67, totalWatchTime = 3, updatedAt = 3\<rparr>)"
  by code_simp

section \<open>Frame of the mutations\<close>

text \<open>
  C10. A sampling step or a toggle for video \<open>videoId\<close> leaves the entry of every other
  video as it was, and the toggle leaves the watch time of \<open>videoId\<close> as it was (0 for
  a video without entry).
\<close>

theorem mutation_leaves_other_videos:
  assumes "v \<noteq> videoId"
  shows "(\<forall>st'. trackProgress chapters videoId capturedChapter player now st = Inr st'
            \<longrightarrow> progress st' v = progress st v)
       \<and> (\<forall>st'. markChapterCompleted chapters videoId i now st = Inr st'
            \<longrightarrow> progress st' v = progress st v
              \<and> totalWatchTime (recordOrDefault (progress st') videoId now')
                  = totalWatchTime (recordOrDefault (progress st) videoId now'))"
proof (intro conjI allI impI)
  fix st'
  assume "trackProgress chapters videoId capturedChapter player now st = Inr st'"
  from trackProgress_progress_cases [OF this] assms
  show "progress st' v = progress st v"
    by (auto simp: applyChapterAdvance_other)
next
  fix st'
  assume m: "markChapterCompleted chapters videoId i now st = Inr st'"
  from markChapterCompleted_cases [OF m] assms
  show "progress st' v = progress st v"
    by (auto simp: toggleCompletion_other)
  from markChapterCompleted_cases [OF m]
  show "totalWatchTime (recordOrDefault (progress st') videoId now')
          = totalWatchTime (recordOrDefault (progress st) videoId now')"
  proof
    assume "videoId = [] \<and> st' = st"
    then show ?thesis by simp
  next
    assume "videoId \<noteq> [] \<and> toggleCompletion chapters videoId i now (progress st) = Inr (progress st')
      \<and> currentChapter st' = currentChapter st"
    then have "toggleCompletion chapters videoId i now (progress st) = Inr (progress st')" by simp
    from toggleCompletion_entry [OF this] show ?thesis
      by (simp add: recordOrDefault_def defaultProgress_def split: option.splits)
  qed
qed

theorem mutation_leaves_other_videos_witness:
  "otherId \<noteq> exampleId
   \<and> (\<exists>st'. trackProgress exampleChapters exampleId 0 (Some 400) 2000 watchedState = Inr st'
         \<and> progress st' exampleId \<noteq> progress watchedState exampleId
         \<and> progress st' otherId = progress watchedState otherId)
   \<and> (\<exists>st'. markChapterCompleted exampleChapters exampleId 1 2000 watchedState = Inr st'
         \<and> progress st' exampleId \<noteq> progress watchedState exampleId
         \<and> progress st' otherId = progress watchedState otherId
         \<and> totalWatchTime (recordOrDefault (progress st') exampleId 0) = 2)"
proof -
  have h: "otherId \<noteq> exampleId"
    by (simp add: otherId_def exampleId_def)
  have g: "getProperty (progress watchedState) exampleId \<noteq> Inherited"
    by (simp add: getProperty_def watchedState_def exampleId_def otherId_def)
  have n: "exampleId \<noteq> []"
    by (simp add: exampleId_def)
  have t: "totalWatchTime (recordOrDefault (progress watchedState) exampleId 0) = 2"
    by (simp add: recordOrDefault_def watchedState_def exampleId_def otherId_def)
  have c: "exampleChapters \<noteq> []"
    by (simp add: exampleChapters_def)
  have f: "findCurrentChapter exampleChapters 400 = 2"
    by (simp add: findCurrentChapter_def exampleChapters_def chapterAt_def numeral_3_eq_3)
  have lt: "(0::int) < int 2" by simp
  from trackProgress_forward_advance [OF c f lt g, of 2000]
  obtain s1 r1 where s1: "trackProgress exampleChapters exampleId 0 (Some 400) 2000 watchedState = Inr s1"
    and r1: "progress s1 exampleId = Some r1" and u1: "updatedAt r1 = 2000"
    by blast
  from r1 u1 have d1: "progress s1 exampleId \<noteq> progress watchedState exampleId"
    by (auto simp: watchedState_def exampleId_def otherId_def)
  from markChapterCompleted_Inr [OF n g, of exampleChapters 1 2000]
  obtain stored where tg: "toggleCompletion exampleChapters exampleId 1 2000 (progress watchedState) = Inr stored"
    and s2: "markChapterCompleted exampleChapters exampleId 1 2000 watchedState
               = Inr (watchedState\<lparr>progress := stored\<rparr>)"
    by blast
  from toggleCompletion_entry [OF tg]
  have d2: "progress (watchedState\<lparr>progress := stored\<rparr>) exampleId \<noteq> progress watchedState exampleId"
    by (auto simp: watchedState_def recordOrDefault_def exampleId_def otherId_def)
  from mutation_leaves_other_videos [OF h, of exampleChapters 0 "Some 400" 2000 watchedState 1 0]
    s1 s2 d1 d2 h t
  show ?thesis by auto
qed

section \<open>The completion toggle\<close>

text \<open>
  C6. For a video identifier that is set (not the empty string, on which
  \<^verbatim>\<open>markChapterCompleted\<close> returns at once) and whose key has an entry or no property
  at all, two toggles of the same index return and give back the completed set from
  before. A single toggle flips the membership of the index and of no other; each
  toggle sets the last watched chapter to the index, stamps the entry with the clock
  value of its call, so the stamp after the second toggle is the later one, and
  computes the percentage anew from the new list and the chapter count: with at least
  one chapter it is an integer within one half of \<open>100 n / count\<close>, equal to
  \<open>round(100 n / count)\<close> off the ties.
\<close>

theorem markChapterCompleted_double_toggle:
  assumes "videoId \<noteq> []"
    and "getProperty (progress st) videoId \<noteq> Inherited"
  shows "\<exists>st1 st2 r1 r2.
         markChapterCompleted chapters videoId i now1 st = Inr st1
       \<and> markChapterCompleted chapters videoId i now2 st1 = Inr st2
       \<and> completedOf (progress st2) videoId = completedOf (progress st) videoId
       \<and> completedOf (progress st1) videoId =
           (if i \<in> completedOf (progress st) videoId
            then completedOf (progress st) videoId - {i}
            else insert i (completedOf (progress st) videoId))
       \<and> progress st1 videoId = Some r1 \<and> progress st2 videoId = Some r2
       \<and> lastWatchedChapter r1 = i \<and> lastWatchedChapter r2 = i
       \<and> updatedAt r1 = now1 \<and> updatedAt r2 = now2
       \<and> progressPercentage r1 = percentageOf (length (completedChapters r1)) (length chapters)
       \<and> progressPercentage r2 = percentageOf (length (completedChapters r2)) (length chapters)
       \<and> (\<forall>r\<in>{r1, r2}. chapters \<noteq> [] \<and> length (completedChapters r) < 2 ^ 32 \<longrightarrow>
            (\<exists>k. progressPercentage r = Finite (of_int k)
               \<and> (k = specPercentage (length (completedChapters r)) (length chapters)
                  \<or> (k = specPercentage (length (completedChapters r)) (length chapters) - 1
                     \<and> (200 * length (completedChapters r) + length chapters)
                          mod (2 * length chapters) = 0))
               \<and> \<bar>real_of_int k
                    - 100 * real (length (completedChapters r)) / real (length chapters)\<bar>
                   \<le> 1 / 2))"
proof -
  from markChapterCompleted_Inr [OF assms, of chapters i now1]
  obtain stored1 where t1: "toggleCompletion chapters videoId i now1 (progress st) = Inr stored1"
    and m1: "markChapterCompleted chapters videoId i now1 st = Inr (st\<lparr>progress := stored1\<rparr>)"
    by blast
  define st1 where "st1 = st\<lparr>progress := stored1\<rparr>"
  from toggleCompletion_entry [OF t1] obtain r1 where r1: "progress st1 videoId = Some r1"
    and f1: "lastWatchedChapter r1 = i" "updatedAt r1 = now1"
    by (simp add: st1_def)
  from r1 have g1: "getProperty (progress st1) videoId \<noteq> Inherited"
    by (simp add: getProperty_def)
  from markChapterCompleted_Inr [OF assms(1) g1, of chapters i now2]
  obtain stored2 where t2: "toggleCompletion chapters videoId i now2 (progress st1) = Inr stored2"
    and m2: "markChapterCompleted chapters videoId i now2 st1 = Inr (st1\<lparr>progress := stored2\<rparr>)"
    by blast
  define st2 where "st2 = st1\<lparr>progress := stored2\<rparr>"
  from toggleCompletion_entry [OF t2] obtain r2 where r2: "progress st2 videoId = Some r2"
    and f2: "lastWatchedChapter r2 = i" "updatedAt r2 = now2"
    by (simp add: st2_def)
  have t1': "toggleCompletion chapters videoId i now1 (progress st) = Inr (progress st1)"
    using t1 by (simp add: st1_def)
  have t2': "toggleCompletion chapters videoId i now2 (progress st1) = Inr (progress st2)"
    using t2 by (simp add: st2_def)
  have c1: "completedOf (progress st1) videoId =
           (if i \<in> completedOf (progress st) videoId
            then completedOf (progress st) videoId - {i}
            else insert i (completedOf (progress st) videoId))"
    by (rule completedOf_toggleCompletion [OF t1'])
  have c2: "completedOf (progress st2) videoId = completedOf (progress st) videoId"
    unfolding completedOf_toggleCompletion [OF t2'] c1 by auto
  have p1: "progressPercentage r1 = percentageOf (length (completedChapters r1)) (length chapters)"
    by (rule stored_percentage [OF disjI2 [OF t1'] r1])
  have p2: "progressPercentage r2 = percentageOf (length (completedChapters r2)) (length chapters)"
    by (rule stored_percentage [OF disjI2 [OF t2'] r2])
  have pin: "\<exists>k. progressPercentage r = Finite (of_int k)
       \<and> (k = specPercentage (length (completedChapters r)) (length chapters)
          \<or> (k = specPercentage (length (completedChapters r)) (length chapters) - 1
             \<and> (200 * length (completedChapters r) + length chapters)
                  mod (2 * length chapters) = 0))
       \<and> \<bar>real_of_int k - 100 * real (length (completedChapters r)) / real (length chapters)\<bar>
           \<le> 1 / 2"
    if "r \<in> {r1, r2}" "chapters \<noteq> [] \<and> length (completedChapters r) < 2 ^ 32" for r
  proof -
    from that(2) have len: "0 < length chapters" and b: "length (completedChapters r) < 2 ^ 32"
      by simp_all
    from that(1) p1 p2
    have "progressPercentage r = percentageOf (length (completedChapters r)) (length chapters)"
      by auto
    with percentageOf_spec [OF len b] show ?thesis by simp
  qed
  then have pin': "\<forall>r\<in>{r1, r2}. chapters \<noteq> [] \<and> length (completedChapters r) < 2 ^ 32 \<longrightarrow>
            (\<exists>k. progressPercentage r = Finite (of_int k)
               \<and> (k = specPercentage (length (completedChapters r)) (length chapters)
                  \<or> (k = specPercentage (length (completedChapters r)) (length chapters) - 1
                     \<and> (200 * length (completedChapters r) + length chapters)
                          mod (2 * length chapters) = 0))
               \<and> \<bar>real_of_int k
                    - 100 * real (length (completedChapters r)) / real (length chapters)\<bar>
                   \<le> 1 / 2)"
    by blast
  have m1': "markChapterCompleted chapters videoId i now1 st = Inr st1"
    using m1 by (simp add: st1_def)
  have m2': "markChapterCompleted chapters videoId i now2 st1 = Inr st2"
    using m2 by (simp add: st2_def)
  show ?thesis
    by (intro exI [of _ st1] exI [of _ st2] exI [of _ r1] exI [of _ r2] conjI)
      (rule m1' m2' c1 c2 r1 r2 f1 f2 p1 p2 pin')+
qed

theorem markChapterCompleted_double_toggle_witness:
  "exampleId \<noteq> []
   \<and> getProperty (progress initialState) exampleId \<noteq> Inherited
   \<and> view exampleId (markChapterCompleted exampleChapters exampleId 2 1 initialState)
       = Inr (0, Some toggledEntry)
   \<and> view exampleId (markChapterCompleted exampleChapters exampleId 2 2
        (initialState\<lparr>progress := [exampleId \<mapsto> toggledEntry]\<rparr>))
       = Inr (0, Some \<lparr>completedChapters = [], lastWatchedChapter = 2,
                       progressPercentage = Finite 0, totalWatchTime = 0, updatedAt = 2\<rparr>)
   \<and> (\<exists>st1 st2. markChapterCompleted exampleChapters exampleId 2 1 initialState = Inr st1
         \<and> markChapterCompleted exampleChapters exampleId 2 2 st1 = Inr st2
         \<and> completedOf (progress st1) exampleId = {2}
         \<and> completedOf (progress st2) exampleId = {})"
proof -
  have h: "exampleId \<noteq> []"
    by (simp add: exampleId_def)
  have g: "getProperty (progress initialState) exampleId \<noteq> Inherited"
    by (simp add: getProperty_def initialState_def exampleId_def objectPrototypeKeys_def)
  have c: "completedOf (progress initialState) exampleId = {}"
    by (simp add: completedOf_def initialState_def)
  have v1: "view exampleId (markChapterCompleted exampleChapters exampleId 2 1 initialState)
       = Inr (0, Some toggledEntry)"
    by code_simp
  have v2: "view exampleId (markChapterCompleted exampleChapters exampleId 2 2
        (initialState\<lparr>progress := [exampleId \<mapsto> toggledEntry]\<rparr>))
       = Inr (0, Some \<lparr>completedChapters = [], lastWatchedChapter = 2,
                       progressPercentage = Finite 0, totalWatchTime = 0, updatedAt = 2\<rparr>)"
    by code_simp
  from markChapterCompleted_double_toggle [OF h g, of exampleChapters 2 1 2] c
  have "\<exists>st1 st2. markChapterCompleted exampleChapters exampleId 2 1 initialState = Inr st1
         \<and> markChapterCompleted exampleChapters exampleId 2 2 st1 = Inr st2
         \<and> completedOf (progress st1) exampleId = {2}
         \<and> completedOf (progress st2) exampleId = {}"
    by (metis empty_iff)
  with h g v1 v2 show ?thesis by blast
qed

section \<open>Loading the store\<close>

text \<open>
  The parser never runs out of the fuel \<open>JSON_parse\<close> gives it: each result leaves
  less input than it was given, and a call spends at most two units of fuel per
  character. So \<open>JSON_parse\<close> returns a value or \<open>SyntaxError\<close>.
\<close>

lemma length_skip_ws: "length (skip_ws s) \<le> length s"
  by (simp add: skip_ws_def length_dropWhile_le)

lemma skip_ws_Cons: "skip_ws s = c # cs \<Longrightarrow> length cs < length s"
  using length_skip_ws [of s] by simp

lemma string_body_shorter: "string_body s = Some (str, r) \<Longrightarrow> length r < length s"
proof (induction s arbitrary: str r rule: string_body.induct)
  case 1
  then show ?case by simp
next
  case (2 c cs)
  then show ?case
    by (fastforce split: if_splits list.splits)
qed

lemma digits_shorter: "digits s = Some (ds, r) \<Longrightarrow> length r < length s"
proof -
  assume a: "digits s = Some (ds, r)"
  then have "takeWhile is_digit s \<noteq> []" and r: "r = dropWhile is_digit s"
    by (auto simp: digits_def Let_def split: if_splits)
  then have "length (takeWhile is_digit s) > 0" by simp
  moreover have "length (takeWhile is_digit s) + length (dropWhile is_digit s) = length s"
    by (metis length_append takeWhile_dropWhile_id)
  ultimately have "length (dropWhile is_digit s) < length s" by linarith
  with r show ?thesis by simp
qed

lemma literal_shorter: "w \<noteq> [] \<Longrightarrow> literal w s = Some r \<Longrightarrow> length r < length s"
proof -
  assume w: "w \<noteq> []" and "literal w s = Some r"
  then have t: "take (length w) s = w" and r: "r = drop (length w) s"
    by (auto simp: literal_def split: if_splits)
  from arg_cong [OF t, of length] have "length w \<le> length s"
    by simp
  with w r show ?thesis by (cases w) auto
qed


lemma number_lexeme_shorter: "number_lexeme s = Some (num, r) \<Longrightarrow> length r < length s"
proof -
  assume a: "number_lexeme s = Some (num, r)"
  obtain sg s1 where sg: "(case s of c # r \<Rightarrow> if c = CHR ''-'' then ([c], r) else ([], s) | [] \<Rightarrow> ([], s)) = (sg, s1)"
    by (cases "(case s of c # r \<Rightarrow> if c = CHR ''-'' then ([c], r) else ([], s) | [] \<Rightarrow> ([], s))") auto
  then have l1: "length s1 \<le> length s"
    by (auto split: list.splits if_splits)
  from a sg obtain ip s2 where
    ip: "(case s1 of [] \<Rightarrow> None | c # r \<Rightarrow> if c = CHR ''0'' then Some ([c], r) else digits s1) = Some (ip, s2)"
    by (auto simp: number_lexeme_def split: option.splits)
  then have l2: "length s2 < length s1"
    by (auto split: list.splits if_splits dest: digits_shorter)
  from a sg ip obtain fp s3 where
    fp: "(case s2 of [] \<Rightarrow> Some ([], s2)
          | c # r \<Rightarrow> if c = CHR ''.'' then map_option (\<lambda>(ds, r'). (c # ds, r')) (digits r)
                     else Some ([], s2)) = Some (fp, s3)"
    by (auto simp: number_lexeme_def split: option.splits)
  then have l3: "length s3 \<le> length s2"
    by (auto split: list.splits if_splits dest: digits_shorter)
  from a sg ip fp obtain ep where
    ep: "(case s3 of [] \<Rightarrow> Some ([], s3)
          | c # r \<Rightarrow>
              if c = CHR ''e'' \<or> c = CHR ''E'' then
                (case r of [] \<Rightarrow> None
                 | g # r' \<Rightarrow>
                     if g = CHR ''+'' \<or> g = CHR ''-''
                     then map_option (\<lambda>(ds, r''). (c # g # ds, r'')) (digits r')
                     else map_option (\<lambda>(ds, r''). (c # ds, r'')) (digits r))
              else Some ([], s3)) = Some (ep, r)"
    by (auto simp: number_lexeme_def split: option.splits)
  then have l4: "length r \<le> length s3"
    by (auto split: list.splits if_splits dest: digits_shorter)
  from l1 l2 l3 l4 show ?thesis by simp
qed


lemma parse_shorter:
  "parse_value n s = Inr (v, r) \<Longrightarrow> length r < length s"
  "parse_elements n acc s = Inr (v, r) \<Longrightarrow> length r < length s"
  "parse_members n macc s = Inr (v, r) \<Longrightarrow> length r < length s"
proof (induction n s and n acc s and n macc s arbitrary: v r and v r and v r
    rule: parse_value_parse_elements_parse_members.induct)
  case (1 s)
  then show ?case by simp
next
  case (2 n s)
  from "2.prems" obtain c cs where sk: "skip_ws s = c # cs"
    by (auto split: list.splits)
  then have cs: "length cs < length s" by (rule skip_ws_Cons)
  have lit: "length r' < length s" if "literal w (c # cs) = Some r'" "w \<noteq> []" for w r'
    using literal_shorter [OF that(2,1)] sk length_skip_ws [of s] by simp
  have num: "length r' < length s" if "number_lexeme (c # cs) = Some (x, r')" for x r'
    using number_lexeme_shorter [OF that] sk length_skip_ws [of s] by simp
  show ?case
  proof (cases "c = CHR ''{''")
    case True
    with "2.prems" sk obtain d r0 where d: "skip_ws cs = d # r0"
      by (auto split: list.splits)
    show ?thesis
    proof (cases "d = CHR ''}''")
      case True
      with "2.prems" sk d \<open>c = CHR ''{''\<close> have "r = r0" by simp
      with skip_ws_Cons [OF d] cs show ?thesis by simp
    next
      case False
      with "2.prems" sk d \<open>c = CHR ''{''\<close> have "parse_members n [] cs = Inr (v, r)" by simp
      from "2.IH"(1) [OF sk \<open>c = CHR ''{''\<close> d False this] cs show ?thesis by simp
    qed
  next
    case notobj: False
    show ?thesis
    proof (cases "c = CHR ''[''")
      case True
      with "2.prems" sk obtain d r0 where d: "skip_ws cs = d # r0"
        by (auto split: list.splits)
      show ?thesis
      proof (cases "d = CHR '']''")
        case True
        with "2.prems" sk d \<open>c = CHR ''[''\<close> have "r = r0" by simp
        with skip_ws_Cons [OF d] cs show ?thesis by simp
      next
        case False
        with "2.prems" sk d \<open>c = CHR ''[''\<close> have "parse_elements n [] cs = Inr (v, r)" by simp
        from "2.IH"(2) [OF sk notobj \<open>c = CHR ''[''\<close> d False this] cs show ?thesis by simp
      qed
    next
      case notarr: False
      with "2.prems" sk notobj cs lit num show ?thesis
        by (auto split: if_splits option.splits dest: string_body_shorter)
    qed
  qed
next
  case (3 acc s)
  then show ?case by simp
next
  case (4 n acc s)
  from "4.prems" obtain v0 r0 where pv: "parse_value n s = Inr (v0, r0)"
    by (auto split: sum.splits)
  from "4.IH"(1) [OF pv] have r0: "length r0 < length s" .
  from "4.prems" pv obtain c r' where sk: "skip_ws r0 = c # r'"
    by (auto split: list.splits)
  from skip_ws_Cons [OF sk] r0 have r': "length r' < length s" by simp
  show ?case
  proof (cases "c = CHR '',''")
    case True
    with "4.prems" pv sk have "parse_elements n (acc @ [v0]) r' = Inr (v, r)" by simp
    from "4.IH"(2) [OF pv refl sk True this] r' show ?thesis by simp
  next
    case False
    with "4.prems" pv sk r' show ?thesis by (auto split: if_splits)
  qed
next
  case (5 macc s)
  then show ?case by simp
next
  case (6 n macc s)
  from "6.prems" obtain q cs where sk: "skip_ws s = q # cs"
    by (auto split: list.splits)
  from "6.prems" sk have q: "\<not> q \<noteq> CHR 0x22" by (auto split: if_splits)
  from "6.prems" sk q obtain key r1 where sb: "string_body cs = Some (key, r1)"
    by (auto split: option.splits)
  from "6.prems" sk q sb obtain c r2 where sk2: "skip_ws r1 = c # r2"
    by (auto split: list.splits)
  from "6.prems" sk q sb sk2 have c: "\<not> c \<noteq> CHR '':''" by (auto split: if_splits)
  from "6.prems" sk q sb sk2 c obtain v0 r3 where pv: "parse_value n r2 = Inr (v0, r3)"
    by (auto split: sum.splits)
  from "6.prems" sk q sb sk2 c pv obtain d r4 where sk3: "skip_ws r3 = d # r4"
    by (auto split: list.splits)
  have l: "length r4 < length s"
    using skip_ws_Cons [OF sk] string_body_shorter [OF sb] skip_ws_Cons [OF sk2]
      "6.IH"(1) [OF sk q sb refl sk2 c pv] skip_ws_Cons [OF sk3] by simp
  show ?case
  proof (cases "d = CHR '',''")
    case True
    with "6.prems" sk q sb sk2 c pv sk3
    have "parse_members n (macc @ [(key, v0)]) r4 = Inr (v, r)" by simp
    from "6.IH"(2) [OF sk q sb refl sk2 c pv refl sk3 True this] l show ?thesis by simp
  next
    case False
    with "6.prems" sk q sb sk2 c pv sk3 l show ?thesis by (auto split: if_splits)
  qed
qed


lemma parse_fuel:
  "2 * length s + 1 \<le> n \<Longrightarrow> parse_value n s \<noteq> Inl OutOfFuel"
  "2 * length s + 2 \<le> n \<Longrightarrow> parse_elements n acc s \<noteq> Inl OutOfFuel"
  "2 * length s + 2 \<le> n \<Longrightarrow> parse_members n macc s \<noteq> Inl OutOfFuel"
proof (induction n s and n acc s and n macc s
    rule: parse_value_parse_elements_parse_members.induct)
  case (1 s)
  then show ?case by simp
next
  case (2 n s)
  show ?case
  proof (cases "skip_ws s")
    case Nil
    then show ?thesis by simp
  next
    case (Cons c cs)
    from skip_ws_Cons [OF Cons] "2.prems" have fuel: "2 * length cs + 2 \<le> n" by simp
    show ?thesis
    proof (cases "c = CHR ''{''")
      case True
      show ?thesis
      proof (cases "skip_ws cs")
        case Nil
        with Cons True show ?thesis by simp
      next
        case inner: (Cons d r0)
        show ?thesis
        proof (cases "d = CHR ''}''")
          case True
          with Cons inner \<open>c = CHR ''{''\<close> show ?thesis by simp
        next
          case False
          from "2.IH"(1) [OF Cons \<open>c = CHR ''{''\<close> inner False fuel]
          show ?thesis using Cons inner \<open>c = CHR ''{''\<close> False by simp
        qed
      qed
    next
      case notobj: False
      show ?thesis
      proof (cases "c = CHR ''[''")
        case True
        show ?thesis
        proof (cases "skip_ws cs")
          case Nil
          with Cons True notobj show ?thesis by simp
        next
          case inner: (Cons d r0)
          show ?thesis
          proof (cases "d = CHR '']''")
            case True
            with Cons inner \<open>c = CHR ''[''\<close> notobj show ?thesis by simp
          next
            case False
            from "2.IH"(2) [OF Cons notobj \<open>c = CHR ''[''\<close> inner False fuel]
            show ?thesis using Cons inner \<open>c = CHR ''[''\<close> notobj False by simp
          qed
        qed
      next
        case False
        with Cons notobj show ?thesis
          by (auto split: option.splits)
      qed
    qed
  qed
next
  case (3 acc s)
  then show ?case by simp
next
  case (4 n acc s)
  from "4.prems" have "2 * length s + 1 \<le> n" by simp
  from "4.IH"(1) [OF this] have nf: "parse_value n s \<noteq> Inl OutOfFuel" .
  show ?case
  proof (cases "parse_value n s")
    case (Inl e)
    with nf show ?thesis by simp
  next
    case (Inr p)
    obtain v0 r0 where p: "p = (v0, r0)" by (cases p)
    from parse_shorter(1) [of n s v0 r0] Inr p have r0: "length r0 < length s" by simp
    show ?thesis
    proof (cases "skip_ws r0")
      case Nil
      with Inr p show ?thesis by simp
    next
      case (Cons c r')
      from skip_ws_Cons [OF Cons] r0 "4.prems" have fuel: "2 * length r' + 2 \<le> n" by simp
      show ?thesis
      proof (cases "c = CHR '',''")
        case True
        from "4.IH"(2) [OF Inr p [symmetric] Cons True fuel]
        show ?thesis using Inr p Cons True by simp
      next
        case False
        with Inr p Cons show ?thesis by simp
      qed
    qed
  qed
next
  case (5 macc s)
  then show ?case by simp
next
  case (6 n macc s)
  show ?case
  proof (cases "skip_ws s")
    case Nil
    then show ?thesis by simp
  next
    case (Cons q cs)
    show ?thesis
    proof (cases "q \<noteq> CHR 0x22")
      case True
      with Cons show ?thesis by simp
    next
      case q: False
      show ?thesis
      proof (cases "string_body cs")
        case None
        with Cons q show ?thesis by simp
      next
        case (Some kr)
        obtain key r1 where kr: "kr = (key, r1)" by (cases kr)
        show ?thesis
        proof (cases "skip_ws r1")
          case Nil
          with Cons q Some kr show ?thesis by simp
        next
          case sk2: (Cons c r2)
          show ?thesis
          proof (cases "c \<noteq> CHR '':''")
            case True
            with Cons q Some kr sk2 show ?thesis by simp
          next
            case c: False
            have l2: "length r2 + 2 < length s + 1"
              using skip_ws_Cons [OF Cons] string_body_shorter [of cs key r1] Some kr
                skip_ws_Cons [OF sk2] by simp
            with "6.prems" have "2 * length r2 + 1 \<le> n" by simp
            from "6.IH"(1) [OF Cons q Some kr [symmetric] sk2 c this]
            have nf: "parse_value n r2 \<noteq> Inl OutOfFuel" .
            show ?thesis
            proof (cases "parse_value n r2")
              case (Inl e)
              with nf Cons q Some kr sk2 c show ?thesis by simp
            next
              case (Inr p)
              obtain v0 r3 where p: "p = (v0, r3)" by (cases p)
              from parse_shorter(1) [of n r2 v0 r3] Inr p have r3: "length r3 < length r2" by simp
              show ?thesis
              proof (cases "skip_ws r3")
                case Nil
                with Cons q Some kr sk2 c Inr p show ?thesis by simp
              next
                case sk3: (Cons d r4)
                from skip_ws_Cons [OF sk3] r3 l2 "6.prems"
                have fuel: "2 * length r4 + 2 \<le> n" by simp
                show ?thesis
                proof (cases "d = CHR '',''")
                  case True
                  from "6.IH"(2) [OF Cons q Some kr [symmetric] sk2 c Inr p [symmetric] sk3 True fuel]
                  show ?thesis using Cons q Some kr sk2 c Inr p sk3 True by simp
                next
                  case False
                  with Cons q Some kr sk2 c Inr p sk3 show ?thesis by simp
                qed
              qed
            qed
          qed
        qed
      qed
    qed
  qed
qed

lemma JSON_parse_fuel: "JSON_parse s \<noteq> Inl OutOfFuel"
proof -
  have "parse_value (2 * length s + 2) s \<noteq> Inl OutOfFuel"
    by (rule parse_fuel(1)) simp
  then show ?thesis
    by (auto simp: JSON_parse_def split: sum.splits)
qed

text \<open>
  C4, as the code has it. The load keeps the store it has (the empty mapping at start)
  when the durable value is absent or the empty string. On any other content it
  returns what \<^verbatim>\<open>JSON.parse\<close> returns: the parsed value when the content is
  well-formed, and otherwise the parser's \<open>SyntaxError\<close>, which leaves the effect
  since it has no handler.
\<close>

theorem loadProgress_result:
  "loadProgress None current = Inr current
   \<and> loadProgress (Some []) current = Inr current
   \<and> (s \<noteq> [] \<and> JSON_parse s = Inr v \<longrightarrow> loadProgress (Some s) current = Inr v)
   \<and> (s \<noteq> [] \<and> JSON_parse s = Inl e \<longrightarrow>
        e = SyntaxError \<and> loadProgress (Some s) current = Inl SyntaxError)"
proof -
  have "e = SyntaxError" if "JSON_parse s = Inl e"
    using that JSON_parse_fuel [of s] by (cases e) simp_all
  then show ?thesis
    by (auto simp: loadProgress_def)
qed

theorem loadProgress_result_witness:
  "''{}'' \<noteq> [] \<and> JSON_parse ''{}'' = Inr (JObject [])
   \<and> loadProgress (Some ''{}'') emptyStore = Inr emptyStore
   \<and> ''[1,]'' \<noteq> [] \<and> JSON_parse ''[1,]'' = Inl SyntaxError
   \<and> loadProgress (Some ''[1,]'') emptyStore = Inl SyntaxError"
proof -
  have a: "JSON_parse ''{}'' = Inr (JObject [])" by code_simp
  have b: "JSON_parse ''[1,]'' = Inl SyntaxError" by code_simp
  from loadProgress_result [of emptyStore "''{}''" "JObject []" SyntaxError]
    loadProgress_result [of emptyStore "''[1,]''" "JObject []" SyntaxError] a b
  show ?thesis by (simp add: emptyStore_def)
qed

text \<open>
  C4 as stated fails: on the content \<^verbatim>\<open>{not json\<close> the load does not give the empty
  mapping, the syntax error leaves the effect.
\<close>

theorem loadProgress_malformed_counterexample:
  "loadProgress (Some ''{not json'') emptyStore = Inl SyntaxError"
  by code_simp

text \<open>
  The parsed value is taken as the store whatever its shape: the content \<^verbatim>\<open>null\<close> is
  well-formed, and the store becomes null.
\<close>

lemma loadProgress_not_validated:
  "loadProgress (Some ''null'') emptyStore = Inr JNull"
  by code_simp

section \<open>No chapters\<close>








section \<open>Range of the completed chapters\<close>



section \<open>Unknown video identifiers\<close>

text \<open>
  C8, as the code has it. For a video without entry whose identifier names no
  property of \<^verbatim>\<open>Object.prototype\<close>, the reader returns null, not a default entry, and
  what is rendered from it raises no error: a percentage of 0, no completed chapter,
  no summary. The default entry (no completed chapter, last watched chapter -1,
  percentage 0, watch time 0) is what both mutations start from: the advance to \<open>b\<close>
  stores the chapters below \<open>b\<close> and a watch time of 1, the toggle of \<open>i\<close> stores the
  single chapter \<open>i\<close>.
\<close>

theorem unknown_video_defaults:
  assumes "prog videoId = None"
    and "videoId \<notin> set objectPrototypeKeys"
  shows "getVideoProgress videoId prog = Undefined
       \<and> shownPercentage videoId prog = Finite 0
       \<and> shownCompleted videoId prog i = Inr False
       \<and> shownChaptersDone videoId prog = Inr None
       \<and> valueOrDefault prog videoId now = Entry (defaultProgress now)
       \<and> completedChapters (defaultProgress now) = []
       \<and> lastWatchedChapter (defaultProgress now) = - 1
       \<and> progressPercentage (defaultProgress now) = Finite 0
       \<and> totalWatchTime (defaultProgress now) = 0
       \<and> applyChapterAdvance chapters videoId b now prog =
           Inr (prog(videoId \<mapsto> (defaultProgress now)
             \<lparr>completedChapters := uniqueValues (map int [0..<b]),
              lastWatchedChapter := int b,
              progressPercentage :=
                percentageOf (length (uniqueValues (map int [0..<b]))) (length chapters),
              totalWatchTime := 1\<rparr>))
       \<and> toggleCompletion chapters videoId i now prog =
           Inr (prog(videoId \<mapsto> (defaultProgress now)
             \<lparr>completedChapters := [i],
              lastWatchedChapter := i,
              progressPercentage := percentageOf 1 (length chapters)\<rparr>))"
proof -
  from assms have u: "getProperty prog videoId = Undefined"
    by (simp add: getProperty_Undefined_iff)
  then have g: "getProperty prog videoId \<noteq> Inherited" by simp
  from assms(1) have r: "recordOrDefault prog videoId now = defaultProgress now"
    by (simp add: recordOrDefault_def)
  have one: "double (0 + 1) = 1"
    using double_of_nat [of 1] by simp
  have dflt: "completedChapters (defaultProgress now) = []"
    "lastWatchedChapter (defaultProgress now) = - 1"
    "progressPercentage (defaultProgress now) = Finite 0"
    "totalWatchTime (defaultProgress now) = 0"
    by (simp_all add: defaultProgress_def)
  have a: "applyChapterAdvance chapters videoId b now prog =
           Inr (prog(videoId \<mapsto> (defaultProgress now)
             \<lparr>completedChapters := uniqueValues (map int [0..<b]),
              lastWatchedChapter := int b,
              progressPercentage :=
                percentageOf (length (uniqueValues (map int [0..<b]))) (length chapters),
              totalWatchTime := 1\<rparr>))"
    using one by (simp add: applyChapterAdvance_Inr [OF g] r defaultProgress_def)
  have t: "toggleCompletion chapters videoId i now prog =
           Inr (prog(videoId \<mapsto> (defaultProgress now)
             \<lparr>completedChapters := [i],
              lastWatchedChapter := i,
              progressPercentage := percentageOf 1 (length chapters)\<rparr>))"
    by (simp add: toggleCompletion_Inr [OF g] r defaultProgress_def)
  from u have "getVideoProgress videoId prog = Undefined"
    "shownPercentage videoId prog = Finite 0"
    "shownCompleted videoId prog i = Inr False"
    "shownChaptersDone videoId prog = Inr None"
    "valueOrDefault prog videoId now = Entry (defaultProgress now)"
    by (simp_all add: getVideoProgress_def shownPercentage_def shownCompleted_def
        shownChaptersDone_def valueOrDefault_def)
  with dflt a t show ?thesis by simp
qed

theorem unknown_video_defaults_witness:
  "progress watchedState ''bbbbbbbbbbb'' = None
   \<and> ''bbbbbbbbbbb'' \<notin> set objectPrototypeKeys
   \<and> getVideoProgress ''bbbbbbbbbbb'' (progress watchedState) = Undefined
   \<and> shownPercentage ''bbbbbbbbbbb'' (progress watchedState) = Finite 0
   \<and> (\<exists>stored. toggleCompletion exampleChapters ''bbbbbbbbbbb'' 2 9 (progress watchedState) = Inr stored
         \<and> completedOf stored ''bbbbbbbbbbb'' = {2})
   \<and> view ''bbbbbbbbbbb''
        (trackProgress exampleChapters ''bbbbbbbbbbb'' 0 (Some 310) 9 watchedState)
       = Inr (2, Some \<lparr>completedChapters = [0, 1], lastWatchedChapter = 2,
                       progressPercentage = Finite 67, totalWatchTime = 1, updatedAt = 9\<rparr>)"
proof -
  have v: "view ''bbbbbbbbbbb''
        (trackProgress exampleChapters ''bbbbbbbbbbb'' 0 (Some 310) 9 watchedState)
       = Inr (2, Some \<lparr>completedChapters = [0, 1], lastWatchedChapter = 2,
                       progressPercentage = Finite 67, totalWatchTime = 1, updatedAt = 9\<rparr>)"
    by code_simp
  have h: "progress watchedState ''bbbbbbbbbbb'' = None"
    by (simp add: watchedState_def exampleId_def otherId_def)
  have k: "''bbbbbbbbbbb'' \<notin> set objectPrototypeKeys"
    by (simp add: objectPrototypeKeys_def)
  from unknown_video_defaults
    [where prog = "progress watchedState" and videoId = "''bbbbbbbbbbb''" and i = 2 and now = 9
       and chapters = exampleChapters and b = 0, OF h k] h k v
  show ?thesis by (simp add: completedOf_def)
qed

text \<open>
  C8 as stated fails in its first part: reading an unknown identifier yields null
  rather than an entry with default fields.
\<close>

theorem getVideoProgress_unknown_counterexample:
  "getVideoProgress exampleId Map.empty = Undefined"
  by code_simp

text \<open>
  An identifier that names a property of \<^verbatim>\<open>Object.prototype\<close> is read differently. The
  page accepts any eleven characters as identifier (\<^verbatim>\<open>extractVideoId\<close>, lines 49-54),
  so it accepts \<^verbatim>\<open>constructor\<close>: with no entry stored, the reader returns the inherited
  function, the chapter list and the summary raise a \<^verbatim>\<open>TypeError\<close> while rendering,
  and so would both updaters.
\<close>

lemma inherited_key_raises:
  "length ''constructor'' = 11
   \<and> getVideoProgress ''constructor'' Map.empty = Inherited
   \<and> shownPercentage ''constructor'' Map.empty = Finite 0
   \<and> shownCompleted ''constructor'' Map.empty 0 = Inl TypeError
   \<and> shownChaptersDone ''constructor'' Map.empty = Inl TypeError
   \<and> applyChapterAdvance exampleChapters ''constructor'' 1 1 Map.empty = Inl TypeError
   \<and> toggleCompletion exampleChapters ''constructor'' 0 1 Map.empty = Inl TypeError"
proof -
  have g: "getProperty Map.empty ''constructor'' = Inherited"
    by (simp add: getProperty_def objectPrototypeKeys_def)
  then show ?thesis
    by (simp add: getVideoProgress_def shownPercentage_def shownCompleted_def
        shownChaptersDone_def applyChapterAdvance_Inl toggleCompletion_Inl)
qed

end
